theory Spec2Isabelle
  imports Main "HOL-Library.Word"
begin

unbundle bit_operations_syntax

section \<open>RADIUS client engine (liblcb, proto/radius_client.c)\<close>

text \<open>
  A shallow embedding of the retransmission, slot allocation, registry and receive
  paths of \<^verbatim>\<open>radius_client.c\<close>. Machine integers whose wrap-around matters are
  words (\<^verbatim>\<open>uint64_t\<close> is \<open>64 word\<close>, \<^verbatim>\<open>uint32_t\<close> is \<open>32 word\<close>); pointers are
  addresses into explicit stores; calls into the codec and the event runtime, whose
  sources are not part of the file, are parameters of the functions that make them.
\<close>

subsection \<open>Jitter: \<^verbatim>\<open>radius_client_rnd_factor\<close>\<close>

text \<open>
  \<^verbatim>\<open>tm\<close> is computed from two CRC32 sums (clock and \<^verbatim>\<open>data\<close>) folded by
  \<^verbatim>\<open>data_xor8\<close>; none of the three is in the file, so the folded value \<open>tm0\<close> is an
  argument. \<open>rnd_factor_tm\<close> is the adjustment of lines 326-328 that keeps the divisor
  away from zero.
\<close>

definition rnd_factor_tm :: "32 word \<Rightarrow> 32 word" where
  "rnd_factor_tm tm0 = (if tm0 AND 0x7f = 0 then tm0 + 1 else tm0)"

definition radius_client_rnd_factor :: "32 word \<Rightarrow> 64 word \<Rightarrow> 64 word" where
  "radius_client_rnd_factor tm0 data =
     (let tm = rnd_factor_tm tm0;
          ret = data div ucast (tm AND 0x7f)
      in if tm AND 0x80 \<noteq> 0 then - ret else ret)"

text \<open>The jitter formula in the words of the specification, for comparison.\<close>

definition spec_jitter_divisor :: "32 word \<Rightarrow> 64 word" where
  "spec_jitter_divisor k = (if k AND 0x7f = 0 then 1 else ucast (k AND 0x7f))"

definition spec_jitter :: "32 word \<Rightarrow> 64 word \<Rightarrow> 64 word" where
  "spec_jitter k t =
     (if k AND 0x80 \<noteq> 0 then - (t div spec_jitter_divisor k) else t div spec_jitter_divisor k)"

subsection \<open>Memory faults, stores and machine sizes\<close>

text \<open>
  A function that dereferences a pointer or indexes an array returns \<open>fault + 'a\<close>:
  \<open>Inl\<close> is the crash of the C program (a dangling or null pointer, an index outside the
  array), \<open>Inr\<close> its normal result. Objects on the heap live in a store, a list indexed
  by address; \<^verbatim>\<open>free\<close> sets the cell to \<open>None\<close> and \<^verbatim>\<open>calloc\<close> appends a cell.
  \<^verbatim>\<open>size_t\<close> counters are \<open>nat\<close>; where the code subtracts, the wrap-around at zero is
  written out (\<open>size_t_dec\<close>, \<open>size_t_sub\<close>, for an LP64 target: pointers of 8 bytes).
\<close>

datatype fault = BadPointer | OutOfBounds | OutOfFuel

definition bindF :: "fault + 'a \<Rightarrow> ('a \<Rightarrow> fault + 'b) \<Rightarrow> fault + 'b" where
  "bindF m f = (case m of Inl e \<Rightarrow> Inl e | Inr x \<Rightarrow> f x)"

definition deref :: "'a option list \<Rightarrow> nat \<Rightarrow> fault + 'a" where
  "deref h p = (if p < length h then (case h ! p of None \<Rightarrow> Inl BadPointer | Some v \<Rightarrow> Inr v)
                else Inl BadPointer)"

definition store :: "'a option list \<Rightarrow> nat \<Rightarrow> 'a \<Rightarrow> 'a option list" where
  "store h p v = h[p := Some v]"

definition release :: "'a option list \<Rightarrow> nat \<Rightarrow> 'a option list" where
  "release h p = h[p := None]"

definition index :: "'a list \<Rightarrow> nat \<Rightarrow> fault + 'a" where
  "index xs i = (if i < length xs then Inr (xs ! i) else Inl OutOfBounds)"

definition sizeof_ptr :: nat where
  "sizeof_ptr = 8"

definition SIZE_MAX :: nat where
  "SIZE_MAX = 2 ^ (8 * sizeof_ptr) - 1"

definition size_t_dec :: "nat \<Rightarrow> nat" where
  "size_t_dec n = (if n = 0 then SIZE_MAX else n - 1)"

definition size_t_sub :: "nat \<Rightarrow> nat \<Rightarrow> nat" where
  "size_t_sub a b = (if b \<le> a then a - b else a + (SIZE_MAX + 1) - b)"

subsection \<open>Server registry: \<^verbatim>\<open>radius_client_server_remove\<close>\<close>

text \<open>
  Both removal functions move and clear memory by byte counts, so the server array is
  modelled here as the bytes \<^verbatim>\<open>calloc\<close> returned: \<open>raw_servers_max\<close> entries of
  \<open>ssz\<close> bytes each, where \<open>ssz\<close> stands for \<^verbatim>\<open>sizeof(radius_cli_srv_t)\<close> (the settings
  structure is declared in a header that is not part of the file, so the size is an
  argument). \<^verbatim>\<open>memmove\<close> and \<^verbatim>\<open>memset\<close> fault when they touch a byte outside the array.
  A server handle \<^verbatim>\<open>srv\<close> is the index of the entry it points to.
\<close>

definition memmove :: "8 word list \<Rightarrow> nat \<Rightarrow> nat \<Rightarrow> nat \<Rightarrow> fault + 8 word list" where
  "memmove mem dst src n =
     (if n = 0 then Inr mem
      else if length mem < src + n then Inl OutOfBounds
      else if length mem < dst + n then Inl OutOfBounds
      else Inr (take dst mem @ take n (drop src mem) @ drop (dst + n) mem))"

definition memset :: "8 word list \<Rightarrow> nat \<Rightarrow> 8 word \<Rightarrow> nat \<Rightarrow> fault + 8 word list" where
  "memset mem dst c n =
     (if n = 0 then Inr mem
      else if length mem < dst + n then Inl OutOfBounds
      else Inr (take dst mem @ replicate n c @ drop (dst + n) mem))"

record srv_array =
  raw_servers_max :: nat
  raw_cli_srv_count :: nat
  raw_srv :: "8 word list"

definition srv_at :: "nat \<Rightarrow> srv_array \<Rightarrow> nat \<Rightarrow> 8 word list" where
  "srv_at ssz r i = take ssz (drop (i * ssz) (raw_srv r))"

text \<open>
  Lines 485-489 (and 506-510): \<^verbatim>\<open>memmove\<close> of
  \<^verbatim>\<open>sizeof(radius_cli_srv_p) * (cli_srv_count - (i + 1))\<close> bytes, the decrement of the
  count, and \<^verbatim>\<open>memset\<close> of the entry at the new \<^verbatim>\<open>cli_srv_count - 1\<close>, computed in
  \<^verbatim>\<open>size_t\<close>.
\<close>

definition server_remove_at :: "nat \<Rightarrow> nat \<Rightarrow> srv_array \<Rightarrow> fault + srv_array" where
  "server_remove_at ssz i r =
     (case memmove (raw_srv r) (i * ssz) ((i + 1) * ssz)
             (sizeof_ptr * (raw_cli_srv_count r - (i + 1))) of
        Inl f \<Rightarrow> Inl f
      | Inr m1 \<Rightarrow>
          (let cnt = size_t_dec (raw_cli_srv_count r) in
           case memset m1 (size_t_dec cnt * ssz) 0 ssz of
             Inl f \<Rightarrow> Inl f
           | Inr m2 \<Rightarrow> Inr (r\<lparr>raw_cli_srv_count := cnt, raw_srv := m2\<rparr>)))"

definition radius_client_server_remove :: "nat \<Rightarrow> srv_array \<Rightarrow> nat \<Rightarrow> fault + srv_array" where
  "radius_client_server_remove ssz r srv_h =
     (case List.find (\<lambda>i. \<not> i \<noteq> srv_h) [0..<raw_cli_srv_count r] of
        None \<Rightarrow> Inr r
      | Some i \<Rightarrow> server_remove_at ssz i r)"

text \<open>
  \<open>is_eq ent a\<close> stands for \<^verbatim>\<open>sa_addr_port_is_eq(&ent.s.addr, a)\<close> on the bytes of an
  entry; the loop skips an entry when the result is not 0 (line 504).
\<close>

definition radius_client_server_remove_by_addr ::
  "nat \<Rightarrow> (8 word list \<Rightarrow> 'a \<Rightarrow> int) \<Rightarrow> srv_array \<Rightarrow> 'a \<Rightarrow> fault + srv_array" where
  "radius_client_server_remove_by_addr ssz is_eq r a =
     (case List.find (\<lambda>i. \<not> 0 \<noteq> is_eq (srv_at ssz r i) a) [0..<raw_cli_srv_count r] of
        None \<Rightarrow> Inr r
      | Some i \<Rightarrow> server_remove_at ssz i r)"

subsection \<open>Data model\<close>

text \<open>
  The structures of lines 63-126. A query borrows the caller's \<^verbatim>\<open>io_buf\<close>; the model
  keeps the buffer in the query. \<open>obj_byte0\<close> is the first byte of the \<^verbatim>\<open>io_buf_t\<close>
  object itself (not of the data it points to), which line 729 reads. A slot of
  \<^verbatim>\<open>queries_tmr\<close> carries the query pointer (\<open>ident\<close>) and the state of the timer event
  registered for it. A socket embeds the \<^verbatim>\<open>io_buf_t\<close> into which its replies are received
  (\<open>skt_buf\<close>, line 89): a pointer to that buffer is a pointer into the socket, so the model
  names the buffer by its socket and reads or writes it through the socket, which faults
  once the socket has been freed. One worker thread is modelled, with its two socket pools; \<open>wire\<close>,
  \<open>tpt_msgs\<close> and \<open>cb_log\<close> record the datagrams sent, the messages posted to threads and
  the completion callbacks invoked. The record \<open>env\<close> holds the results of the calls into
  the codec and the runtime, indexed by a call counter (\<open>now\<close>) where they can change
  from call to call.
\<close>

type_synonym byte = "8 word"
type_synonym tpt_p = nat
type_synonym query_p = nat
type_synonym skt_p = nat

datatype errno = EINVAL | ENOMEM | EMLINK | E2BIG | EAGAIN | EINTR | EDESTADDRREQ
  | ECONNREFUSED | ETIMEDOUT | EOS nat

record sockaddr_storage =
  ss_family :: nat
  sa_addr :: "byte list"
  sa_port :: "16 word"

definition AF_INET :: nat where
  "AF_INET = 2"

definition RADIUS_PKT_HDR_ID_MAX_COUNT :: nat where
  "RADIUS_PKT_HDR_ID_MAX_COUNT = 256"

record radius_cli_srv_settings =
  addr :: sockaddr_storage
  shared_secret :: "byte list"
  retrans_time_init :: "64 word"
  retrans_time_max :: "64 word"
  retrans_duration_max :: "64 word"
  retrans_count_max :: nat

record radius_cli_srv =
  enabled :: bool
  srv_s :: radius_cli_srv_settings

record io_buf =
  obj_byte0 :: byte
  data :: "byte list"
  used :: nat

record radius_cli_query =
  q_skt :: "skt_p option"
  cur_srv_idx :: nat
  retrans_count :: nat
  retrans_time :: "64 word"
  retrans_duration :: "64 word"
  q_tpt :: tpt_p
  query_id_any :: bool
  query_id :: nat
  q_buf :: io_buf
  cb_func :: "nat option"
  udata :: nat
  q_error :: "errno option"

datatype tmr_state = TMR_NONE | TMR_ENABLED "64 word" | TMR_DISABLED

record tp_udata =
  ident :: "query_p option"
  ev_tmr :: tmr_state

datatype pool_id = SKTS4 | SKTS6

record radius_cli_skt =
  skt_buf :: io_buf
  skt_skts :: "pool_id option"
  skt_queries_count :: nat
  skt_queries_index :: nat
  queries_tmr :: "tp_udata list"

record radius_cli_skts =
  skts_queries_count :: nat
  skt_count :: nat
  skts_skt :: "skt_p option list"

datatype tpt_msg = QUERY_MSG query_p | DONE_MSG query_p

record radius_cli =
  thr_sockets_min :: nat
  thr_sockets_max :: nat
  NAS_Identifier :: "byte list"
  cli_srv_count :: nat
  srv :: "radius_cli_srv list"
  thr_tpt :: tpt_p
  skts4 :: radius_cli_skts
  skts6 :: radius_cli_skts
  sockets :: "radius_cli_skt option list"
  queries :: "radius_cli_query option list"
  now :: nat
  wire :: "(sockaddr_storage \<times> byte list) list"
  tpt_msgs :: "(tpt_p \<times> tpt_msg) list"
  cb_log :: "(query_p \<times> errno option) list"

record env =
  thread_get_current :: tpt_p
  rnd_tm :: "nat \<Rightarrow> 64 word \<Rightarrow> 32 word"
  pkt_sign :: "io_buf \<Rightarrow> byte list \<Rightarrow> errno option \<times> io_buf"
  pkt_chk :: "byte list \<Rightarrow> nat \<Rightarrow> errno option"
  pkt_verify :: "byte list \<Rightarrow> byte list \<Rightarrow> byte list \<Rightarrow> int"
  pkt_attr_add :: "io_buf \<Rightarrow> byte \<Rightarrow> byte \<Rightarrow> byte list \<Rightarrow> errno option \<times> io_buf"
  calloc_query :: "nat \<Rightarrow> bool"
  calloc_skt :: "nat \<Rightarrow> bool"
  skt_create_rc :: "nat \<Rightarrow> errno option"
  pkt_rcvr_create_rc :: "nat \<Rightarrow> errno option"
  ev_add_rc :: "nat \<Rightarrow> errno option"
  ev_enable_rc :: "nat \<Rightarrow> errno option"
  sendto_rc :: "nat \<Rightarrow> sockaddr_storage \<Rightarrow> byte list \<Rightarrow> errno option"
  msg_send_rc :: "nat \<Rightarrow> errno option"

definition tick :: "radius_cli \<Rightarrow> radius_cli" where
  "tick st = st\<lparr>now := now st + 1\<rparr>"

definition get_skts :: "radius_cli \<Rightarrow> pool_id \<Rightarrow> radius_cli_skts" where
  "get_skts st pid = (case pid of SKTS4 \<Rightarrow> skts4 st | SKTS6 \<Rightarrow> skts6 st)"

definition set_skts :: "pool_id \<Rightarrow> radius_cli_skts \<Rightarrow> radius_cli \<Rightarrow> radius_cli" where
  "set_skts pid p st = (case pid of SKTS4 \<Rightarrow> st\<lparr>skts4 := p\<rparr> | SKTS6 \<Rightarrow> st\<lparr>skts6 := p\<rparr>)"

definition skts_of_family :: "nat \<Rightarrow> pool_id" where
  "skts_of_family family = (if AF_INET = family then SKTS4 else SKTS6)"

definition empty_udata :: tp_udata where
  "empty_udata = \<lparr>ident = None, ev_tmr = TMR_NONE\<rparr>"

subsection \<open>Completion: \<^verbatim>\<open>radius_client_query_done\<close> and its callback\<close>

text \<open>
  Modelled from the spec: \<open>io_buf_copy_buf\<close> (utils/io_buf.h is not part of the file)
  copies the reply's contents into the caller-provided buffer.
  \<open>query_done_unlinked\<close> is \<^verbatim>\<open>radius_client_query_done\<close> after its call of
  \<^verbatim>\<open>radius_client_query_unlink_skt\<close> (lines 686-704). Its argument \<^verbatim>\<open>buf\<close> is null or
  points to the receive buffer of a socket; line 698 reads it after the unlinking, which
  may have freed that socket.
\<close>

definition radius_client_query_free :: "query_p \<Rightarrow> radius_cli \<Rightarrow> radius_cli" where
  "radius_client_query_free qp st = st\<lparr>queries := release (queries st) qp\<rparr>"

definition radius_client_query_done_tpt_msg_cb ::
  "env \<Rightarrow> tpt_p \<Rightarrow> query_p \<Rightarrow> radius_cli \<Rightarrow> fault + radius_cli" where
  "radius_client_query_done_tpt_msg_cb e tpt qp st =
     (if thread_get_current e \<noteq> tpt then Inr st
      else bindF (deref (queries st) qp) (\<lambda>q.
        case cb_func q of
          None \<Rightarrow> Inl BadPointer
        | Some f \<Rightarrow>
            Inr (radius_client_query_free qp (st\<lparr>cb_log := cb_log st @ [(qp, q_error q)]\<rparr>))))"

definition io_buf_copy_buf :: "io_buf \<Rightarrow> io_buf \<Rightarrow> io_buf" where
  "io_buf_copy_buf dst src =
     dst\<lparr>data := take (used src) (data src) @ drop (used src) (data dst), used := used src\<rparr>"

definition query_done_unlinked ::
  "env \<Rightarrow> query_p \<Rightarrow> skt_p option \<Rightarrow> errno option \<Rightarrow> radius_cli \<Rightarrow> fault + radius_cli" where
  "query_done_unlinked e qp buf error st =
     bindF (deref (queries st) qp) (\<lambda>q.
       if cb_func q = None then Inr (radius_client_query_free qp st)
       else
         (let q1 = q\<lparr>q_error := error\<rparr> in
          if thr_tpt st = q_tpt q
          then radius_client_query_done_tpt_msg_cb e (thr_tpt st) qp
                 (st\<lparr>queries := store (queries st) qp q1\<rparr>)
          else
            bindF (case buf of
                     None \<Rightarrow> Inr q1
                   | Some bp \<Rightarrow>
                       if error = None
                       then bindF (deref (sockets st) bp) (\<lambda>bsk.
                              Inr (q1\<lparr>q_buf := io_buf_copy_buf (q_buf q1) (skt_buf bsk)\<rparr>))
                       else Inr q1)
              (\<lambda>q2. Inr (st\<lparr>queries := store (queries st) qp q2,
                           tpt_msgs := tpt_msgs st @ [(q_tpt q, DONE_MSG qp)]\<rparr>))))"

subsection \<open>Sockets: \<^verbatim>\<open>radius_client_socket_free\<close>, \<^verbatim>\<open>radius_client_query_unlink_skt\<close>\<close>

text \<open>
  \<open>skts_remove\<close> is the loop of lines 590-600, \<open>socket_free_queries\<close> the loop of lines
  602-609: it clears \<^verbatim>\<open>query->skt\<close> and completes the query with \<^verbatim>\<open>EINTR\<close>; with the
  socket pointer cleared, \<^verbatim>\<open>radius_client_query_done\<close> skips the unlinking, so the model
  calls \<open>query_done_unlinked\<close>.
\<close>

fun socket_free_queries ::
  "env \<Rightarrow> tp_udata list \<Rightarrow> radius_cli \<Rightarrow> fault + radius_cli" where
  "socket_free_queries e [] st = Inr st"
| "socket_free_queries e (u # us) st =
     (case ident u of
        None \<Rightarrow> socket_free_queries e us st
      | Some qp \<Rightarrow>
          bindF (deref (queries st) qp) (\<lambda>q.
          bindF (query_done_unlinked e qp None (Some EINTR)
                   (st\<lparr>queries := store (queries st) qp (q\<lparr>q_skt := None\<rparr>)\<rparr>))
            (socket_free_queries e us)))"

definition skts_remove :: "skt_p \<Rightarrow> radius_cli_skt \<Rightarrow> radius_cli \<Rightarrow> fault + radius_cli" where
  "skts_remove sp sk st =
     (case skt_skts sk of
        None \<Rightarrow> Inr st
      | Some pid \<Rightarrow>
          (let p = get_skts st pid in
           if length (skts_skt p) < skt_count p then Inl OutOfBounds
           else
             case List.find (\<lambda>i. \<not> Some sp \<noteq> skts_skt p ! i) [0..<skt_count p] of
               None \<Rightarrow> Inr st
             | Some i \<Rightarrow>
                 Inr (set_skts pid
                   (p\<lparr>skts_queries_count :=
                        size_t_sub (skts_queries_count p) (skt_queries_count sk),
                      skt_count := size_t_dec (skt_count p),
                      skts_skt := (skts_skt p)[i := None]\<rparr>)
                   (st\<lparr>sockets := store (sockets st) sp (sk\<lparr>skt_skts := None\<rparr>)\<rparr>))))"

definition radius_client_socket_free :: "env \<Rightarrow> skt_p \<Rightarrow> radius_cli \<Rightarrow> fault + radius_cli" where
  "radius_client_socket_free e sp st =
     bindF (deref (sockets st) sp) (\<lambda>sk.
       if thread_get_current e \<noteq> thr_tpt st then Inr st
       else
         bindF (skts_remove sp sk st) (\<lambda>st1.
         bindF (socket_free_queries e (queries_tmr sk) st1) (\<lambda>st2.
           Inr (st2\<lparr>sockets := release (sockets st2) sp\<rparr>))))"

definition radius_client_query_unlink_skt ::
  "env \<Rightarrow> query_p \<Rightarrow> radius_cli \<Rightarrow> fault + radius_cli" where
  "radius_client_query_unlink_skt e qp st =
     bindF (deref (queries st) qp) (\<lambda>q.
       case q_skt q of
         None \<Rightarrow> Inr st
       | Some sp \<Rightarrow>
           bindF (deref (sockets st) sp) (\<lambda>sk.
           bindF (index (queries_tmr sk) (query_id q)) (\<lambda>u.
             case skt_skts sk of
               None \<Rightarrow> Inl BadPointer
             | Some pid \<Rightarrow>
                 (let sk1 = sk\<lparr>queries_tmr := (queries_tmr sk)[query_id q := empty_udata],
                                skt_queries_count := size_t_dec (skt_queries_count sk)\<rparr>;
                      p = get_skts st pid;
                      p1 = p\<lparr>skts_queries_count := size_t_dec (skts_queries_count p)\<rparr>;
                      st1 = set_skts pid p1
                              (st\<lparr>queries := store (queries st) qp (q\<lparr>q_skt := None\<rparr>),
                                  sockets := store (sockets st) sp sk1\<rparr>)
                  in if skt_queries_count sk1 = 0 \<and> thr_sockets_min st < skt_count p1
                     then bindF (index (skts_skt p1) (size_t_dec (skt_count p1))) (\<lambda>last.
                            if last = Some sp then radius_client_socket_free e sp st1
                            else Inr st1)
                     else Inr st1))))"

definition radius_client_query_done ::
  "env \<Rightarrow> query_p \<Rightarrow> skt_p option \<Rightarrow> errno option \<Rightarrow> radius_cli \<Rightarrow> fault + radius_cli" where
  "radius_client_query_done e qp buf error st =
     bindF (radius_client_query_unlink_skt e qp st) (query_done_unlinked e qp buf error)"

subsection \<open>Socket creation: \<^verbatim>\<open>radius_client_socket_alloc\<close>\<close>

text \<open>
  When \<^verbatim>\<open>skt_create\<close> or a tuning call fails, line 569 calls
  \<^verbatim>\<open>radius_client_socket_free\<close> on a socket whose \<^verbatim>\<open>thr\<close> field \<^verbatim>\<open>calloc\<close> left null, and
  line 580 dereferences it: the model faults there.
  Modelled from the spec: \<open>RADIUS_PKT_MAX_SIZE\<close> (proto/radius.h is not part of the file)
  is the largest RADIUS packet, 4096 bytes; \<^verbatim>\<open>io_buf_init\<close> (line 548) makes the socket's
  buffer an empty one over the zeroed \<^verbatim>\<open>buf_data\<close>.
\<close>

definition RADIUS_PKT_MAX_SIZE :: nat where
  "RADIUS_PKT_MAX_SIZE = 4096"

definition new_skt :: "pool_id \<Rightarrow> radius_cli_skt" where
  "new_skt pid = \<lparr>skt_buf = \<lparr>obj_byte0 = 0, data = replicate RADIUS_PKT_MAX_SIZE 0, used = 0\<rparr>,
     skt_skts = Some pid, skt_queries_count = 0, skt_queries_index = 0,
     queries_tmr = replicate RADIUS_PKT_HDR_ID_MAX_COUNT empty_udata\<rparr>"

definition radius_client_socket_alloc ::
  "env \<Rightarrow> nat \<Rightarrow> radius_cli \<Rightarrow> fault + (errno option \<times> radius_cli)" where
  "radius_client_socket_alloc e family st =
     (if thread_get_current e \<noteq> thr_tpt st then Inr (None, st)
      else
        (let pid = skts_of_family family; p = get_skts st pid in
         if thr_sockets_max st \<le> skt_count p then Inr (Some E2BIG, st)
         else if \<not> calloc_skt e (now st) then Inr (Some ENOMEM, tick st)
         else
           case skt_create_rc e (now st) of
             Some err \<Rightarrow> Inl BadPointer
           | None \<Rightarrow>
               if length (skts_skt p) \<le> skt_count p then Inl OutOfBounds
               else
                 (let sp = length (sockets st);
                      st1 = set_skts pid
                              (p\<lparr>skt_count := skt_count p + 1,
                                 skts_skt := (skts_skt p)[skt_count p := Some sp]\<rparr>)
                              (tick (st\<lparr>sockets := sockets st @ [Some (new_skt pid)]\<rparr>))
                  in case pkt_rcvr_create_rc e (now st) of
                       None \<Rightarrow> Inr (None, st1)
                     | Some err \<Rightarrow>
                         bindF (radius_client_socket_free e sp st1)
                           (\<lambda>st2. Inr (Some err, st2)))))"

subsection \<open>Sending: \<^verbatim>\<open>radius_client_send\<close>, \<^verbatim>\<open>radius_client_send_new\<close>\<close>

text \<open>
  \<open>next_enabled\<close> is the server loop of lines 811-816, \<open>probe\<close> one of the two slot loops
  of lines 837-852, \<open>skt_find_slot\<close> the body of the socket loop, \<open>find_slot\<close> the socket
  loop of lines 828-856 (its second component is the local \<^verbatim>\<open>query_id\<close>), \<open>alloc_slot\<close>
  lines 826-867, \<open>link_query\<close> lines 868-881 and \<open>sign_and_send\<close> lines 883-904. The
  worker's thread handle stands for the argument \<^verbatim>\<open>tpt\<close>.
\<close>

definition set_tmr :: "skt_p \<Rightarrow> radius_cli_skt \<Rightarrow> nat \<Rightarrow> tmr_state \<Rightarrow> radius_cli \<Rightarrow> radius_cli" where
  "set_tmr sp sk i t st =
     st\<lparr>sockets := store (sockets st) sp
           (sk\<lparr>queries_tmr := (queries_tmr sk)[i := (queries_tmr sk ! i)\<lparr>ev_tmr := t\<rparr>]\<rparr>)\<rparr>"

definition radius_client_send ::
  "env \<Rightarrow> query_p \<Rightarrow> radius_cli \<Rightarrow> fault + (errno option \<times> radius_cli)" where
  "radius_client_send e qp st =
     bindF (deref (queries st) qp) (\<lambda>q.
       case q_skt q of
         None \<Rightarrow> Inl BadPointer
       | Some sp \<Rightarrow>
           bindF (deref (sockets st) sp) (\<lambda>sk.
             if thread_get_current e \<noteq> thr_tpt st then Inr (None, st)
             else
               bindF (index (queries_tmr sk) (query_id q)) (\<lambda>u.
                 case ev_enable_rc e (now st) of
                   Some err \<Rightarrow> Inr (Some err, tick st)
                 | None \<Rightarrow>
                     bindF (index (srv st) (cur_srv_idx q)) (\<lambda>sv.
                       (let dst = addr (srv_s sv);
                            bytes = take (used (q_buf q)) (data (q_buf q))
                        in case sendto_rc e (now st) dst bytes of
                             None \<Rightarrow>
                               Inr (None,
                                 tick (set_tmr sp sk (query_id q) (TMR_ENABLED (retrans_time q))
                                   (st\<lparr>wire := wire st @ [(dst, bytes)]\<rparr>)))
                           | Some err \<Rightarrow>
                               Inr (Some err,
                                 tick (set_tmr sp sk (query_id q) TMR_DISABLED st)))))))"

function next_enabled :: "radius_cli_srv list \<Rightarrow> nat \<Rightarrow> nat \<Rightarrow> fault + nat" where
  "next_enabled sv cnt i =
     (if i < cnt
      then (if length sv \<le> i then Inl OutOfBounds
            else if \<not> enabled (sv ! i) then next_enabled sv cnt (Suc i)
            else Inr i)
      else Inr i)"
  by pat_completeness auto
termination
  by (relation "measure (\<lambda>(sv, cnt, i). cnt - i)") auto

function probe :: "tp_udata list \<Rightarrow> nat \<Rightarrow> nat \<Rightarrow> fault + nat option" where
  "probe tmr i hi =
     (if i < hi
      then (if length tmr \<le> i then Inl OutOfBounds
            else if ident (tmr ! i) \<noteq> None then probe tmr (Suc i) hi
            else Inr (Some i))
      else Inr None)"
  by pat_completeness auto
termination
  by (relation "measure (\<lambda>(tmr, i, hi). hi - i)") auto

definition skt_find_slot :: "radius_cli_query \<Rightarrow> radius_cli_skt \<Rightarrow> fault + nat option" where
  "skt_find_slot q sk =
     (if \<not> query_id_any q
      then bindF (index (queries_tmr sk) (query_id q)) (\<lambda>u.
             if ident u \<noteq> None then Inr None else Inr (Some 0))
      else if RADIUS_PKT_HDR_ID_MAX_COUNT = skt_queries_count sk then Inr None
      else bindF (probe (queries_tmr sk) (skt_queries_index sk) RADIUS_PKT_HDR_ID_MAX_COUNT) (\<lambda>r.
             case r of
               Some i \<Rightarrow> Inr (Some i)
             | None \<Rightarrow> probe (queries_tmr sk) 0 (skt_queries_index sk)))"

fun find_slot ::
  "radius_cli_skt option list \<Rightarrow> radius_cli_query \<Rightarrow> skt_p option list \<Rightarrow> fault + (skt_p \<times> nat) option" where
  "find_slot h q [] = Inr None"
| "find_slot h q (x # xs) =
     (case x of
        None \<Rightarrow> Inl BadPointer
      | Some sp \<Rightarrow>
          (case deref h sp of
             Inl f \<Rightarrow> Inl f
           | Inr sk \<Rightarrow>
               (case skt_find_slot q sk of
                  Inl f \<Rightarrow> Inl f
                | Inr (Some i) \<Rightarrow> Inr (Some (sp, i))
                | Inr None \<Rightarrow> find_slot h q xs)))"

definition link_query ::
  "env \<Rightarrow> query_p \<Rightarrow> skt_p \<Rightarrow> nat \<Rightarrow> radius_cli_srv \<Rightarrow> radius_cli \<Rightarrow> fault + (errno option \<times> radius_cli)" where
  "link_query e qp sp qid sv st =
     bindF (deref (queries st) qp) (\<lambda>q.
     bindF (deref (sockets st) sp) (\<lambda>sk.
     bindF (if query_id_any q then index (data (q_buf q)) 1 else Inr 0) (\<lambda>old_id.
       (let sk1 = (if query_id_any q then sk\<lparr>skt_queries_index := qid + 1\<rparr> else sk);
            q1 = (if query_id_any q
                  then q\<lparr>query_id := qid,
                         q_buf := (q_buf q)\<lparr>data := (data (q_buf q))[1 := of_nat qid]\<rparr>\<rparr>
                  else q)
        in bindF (index (queries_tmr sk1) (query_id q1)) (\<lambda>u.
             case skt_skts sk1 of
               None \<Rightarrow> Inl BadPointer
             | Some pid \<Rightarrow>
                 (let rc = ev_add_rc e (now st);
                      u1 = u\<lparr>ident := Some qp,
                             ev_tmr := (if rc = None
                                        then TMR_ENABLED (retrans_time_init (srv_s sv))
                                        else ev_tmr u)\<rparr>;
                      sk2 = sk1\<lparr>queries_tmr := (queries_tmr sk1)[query_id q1 := u1],
                                 skt_queries_count := skt_queries_count sk1 + 1\<rparr>;
                      st1 = tick (st\<lparr>queries := store (queries st) qp (q1\<lparr>q_skt := Some sp\<rparr>),
                                     sockets := store (sockets st) sp sk2\<rparr>);
                      p = get_skts st1 pid
                  in Inr (rc, set_skts pid
                                (p\<lparr>skts_queries_count := skts_queries_count p + 1\<rparr>) st1)))))))"

definition send_new_retrans_time :: "radius_cli_srv_settings \<Rightarrow> 32 word \<Rightarrow> 32 word \<Rightarrow> 64 word" where
  "send_new_retrans_time s k1 k2 =
     (let rt = retrans_time_init s - radius_client_rnd_factor k1 (retrans_time_init s)
      in if retrans_time_max s \<noteq> 0 \<and> retrans_time_max s < rt
         then retrans_time_max s - radius_client_rnd_factor k2 (retrans_time_max s)
         else rt)"

definition sign_and_send ::
  "env \<Rightarrow> query_p \<Rightarrow> radius_cli_srv \<Rightarrow> radius_cli \<Rightarrow> fault + (errno option \<times> radius_cli)" where
  "sign_and_send e qp sv st =
     bindF (deref (queries st) qp) (\<lambda>q.
       case pkt_sign e (q_buf q) (shared_secret (srv_s sv)) of
         (Some err, b) \<Rightarrow>
           Inr (Some err, st\<lparr>queries := store (queries st) qp (q\<lparr>q_buf := b\<rparr>)\<rparr>)
       | (None, b) \<Rightarrow>
           (let s = srv_s sv;
                q1 = q\<lparr>q_buf := b,
                       retrans_time := send_new_retrans_time s
                          (rnd_tm e (now st) (retrans_time_init s))
                          (rnd_tm e (now st + 1) (retrans_time_max s)),
                       retrans_count := 0,
                       retrans_duration := 0\<rparr>
            in radius_client_send e qp
                 (st\<lparr>queries := store (queries st) qp q1, now := now st + 2\<rparr>)))"

definition alloc_slot ::
  "env \<Rightarrow> query_p \<Rightarrow> radius_cli_srv \<Rightarrow> radius_cli \<Rightarrow> fault + (errno option \<times> radius_cli)" where
  "alloc_slot e qp sv st =
     bindF (deref (queries st) qp) (\<lambda>q.
       (let pid = skts_of_family (ss_family (addr (srv_s sv))); p = get_skts st pid in
        if length (skts_skt p) < skt_count p then Inl OutOfBounds
        else
          bindF (find_slot (sockets st) q (take (skt_count p) (skts_skt p))) (\<lambda>r.
            case r of
              Some (sp, qid) \<Rightarrow> link_query e qp sp qid sv st
            | None \<Rightarrow>
                if thr_sockets_max st \<le> skt_count p then Inr (Some EAGAIN, st)
                else
                  bindF (radius_client_socket_alloc e (ss_family (addr (srv_s sv))) st)
                    (\<lambda>(error, st1).
                      if error \<noteq> None then Inr (error, st1)
                      else
                        (let p1 = get_skts st1 pid in
                         bindF (index (skts_skt p1) (size_t_dec (skt_count p1))) (\<lambda>x.
                           case x of
                             None \<Rightarrow> Inl BadPointer
                           | Some sp \<Rightarrow>
                               bindF (deref (sockets st1) sp) (\<lambda>sk.
                                 link_query e qp sp
                                   (if query_id_any q then skt_queries_index sk else 0)
                                   sv st1)))))))"

definition same_skts :: "radius_cli \<Rightarrow> radius_cli_query \<Rightarrow> pool_id \<Rightarrow> fault + bool" where
  "same_skts st q pid =
     (case q_skt q of
        None \<Rightarrow> Inr False
      | Some sp \<Rightarrow> bindF (deref (sockets st) sp) (\<lambda>sk. Inr (skt_skts sk = Some pid)))"

definition radius_client_send_new ::
  "env \<Rightarrow> query_p \<Rightarrow> radius_cli \<Rightarrow> fault + (errno option \<times> radius_cli)" where
  "radius_client_send_new e qp st =
     (if thread_get_current e \<noteq> thr_tpt st then Inr (None, st)
      else
       bindF (deref (queries st) qp) (\<lambda>q.
       if cli_srv_count st = 0 then Inr (Some EDESTADDRREQ, st)
       else
         bindF (next_enabled (srv st) (cli_srv_count st) (cur_srv_idx q)) (\<lambda>idx.
           (let q1 = q\<lparr>cur_srv_idx := idx\<rparr>;
                st1 = st\<lparr>queries := store (queries st) qp q1\<rparr>
            in if \<not> idx < cli_srv_count st then Inr (Some ECONNREFUSED, st1)
               else
                 bindF (index (srv st) idx) (\<lambda>sv.
                 bindF (same_skts st1 q1 (skts_of_family (ss_family (addr (srv_s sv))))) (\<lambda>same.
                   if same then sign_and_send e qp sv st1
                   else
                     bindF (radius_client_query_unlink_skt e qp st1) (\<lambda>st2.
                     bindF (alloc_slot e qp sv st2) (\<lambda>(error, st3).
                       if error \<noteq> None then Inr (error, st3)
                       else sign_and_send e qp sv st3))))))))"

subsection \<open>Timer: \<^verbatim>\<open>radius_client_query_timeout_cb\<close>\<close>

text \<open>
  \<open>next_interval\<close> is lines 966-972, the doubled and capped interval;
  \<open>timeout_retrans\<close> is lines 955-978: it returns the query with its counters updated
  and whether the handler goes on to \<^verbatim>\<open>radius_client_send\<close> (\<open>True\<close>) or jumps to
  \<^verbatim>\<open>err_out\<close> (\<open>False\<close>). The loop of lines 982-987 runs on fuel; it is started with the
  number of servers.
\<close>

definition next_interval :: "radius_cli_srv_settings \<Rightarrow> 32 word \<Rightarrow> 32 word \<Rightarrow> 64 word \<Rightarrow> 64 word" where
  "next_interval s k1 k2 t =
     (let rt = 2 * t - radius_client_rnd_factor k1 t
      in if retrans_time_max s \<noteq> 0 \<and> retrans_time_max s < rt
         then retrans_time_max s - radius_client_rnd_factor k2 (retrans_time_max s)
         else rt)"

definition timeout_retrans ::
  "radius_cli_srv_settings \<Rightarrow> 32 word \<Rightarrow> 32 word \<Rightarrow> radius_cli_query \<Rightarrow> radius_cli_query \<times> bool" where
  "timeout_retrans s k1 k2 q =
     (let q1 = q\<lparr>retrans_count := retrans_count q + 1,
                  retrans_duration := retrans_duration q + retrans_time q\<rparr>
      in if retrans_count_max s \<noteq> 0 \<and> retrans_count_max s \<le> retrans_count q1 then (q1, False)
         else if retrans_duration_max s \<noteq> 0 \<and> retrans_duration_max s \<le> retrans_duration q1
         then (q1, False)
         else
           (let rt1 = next_interval s k1 k2 (retrans_time q1)
            in if retrans_duration_max s \<noteq> 0
                  \<and> retrans_duration_max s \<le> retrans_duration q1 + rt1
               then (let rt2 = retrans_duration_max s - retrans_duration q1
                     in (q1\<lparr>retrans_time := rt2\<rparr>, \<not> rt2 < retrans_time_init s))
               else (q1\<lparr>retrans_time := rt1\<rparr>, True)))"

text \<open>
  Successive expiries of the timer of one query on one server: each element of the list
  is the pair of jitter values of one run of the handler; the run ends when the handler
  gives up. \<open>within_budget\<close> says that the time already waited plus the interval now
  armed does not exceed \<^verbatim>\<open>retrans_duration_max\<close>.
\<close>

fun timeouts_run ::
  "radius_cli_srv_settings \<Rightarrow> (32 word \<times> 32 word) list \<Rightarrow> radius_cli_query \<Rightarrow> radius_cli_query" where
  "timeouts_run s [] q = q"
| "timeouts_run s (k # ks) q =
     (case timeout_retrans s (fst k) (snd k) q of
        (q1, resend) \<Rightarrow> if resend then timeouts_run s ks q1 else q1)"

definition within_budget :: "radius_cli_srv_settings \<Rightarrow> radius_cli_query \<Rightarrow> bool" where
  "within_budget s q \<longleftrightarrow>
     uint (retrans_duration q) + uint (retrans_time q) \<le> uint (retrans_duration_max s)"

fun failover_loop ::
  "nat \<Rightarrow> env \<Rightarrow> query_p \<Rightarrow> errno option \<Rightarrow> radius_cli \<Rightarrow> fault + (errno option \<times> radius_cli)" where
  "failover_loop 0 e qp error st =
     bindF (deref (queries st) qp) (\<lambda>q.
       if cur_srv_idx q + 1 < cli_srv_count st \<and> error \<noteq> None then Inl OutOfFuel
       else Inr (error, st))"
| "failover_loop (Suc n) e qp error st =
     bindF (deref (queries st) qp) (\<lambda>q.
       if cur_srv_idx q + 1 < cli_srv_count st \<and> error \<noteq> None
       then bindF (radius_client_send_new e qp
                    (st\<lparr>queries := store (queries st) qp (q\<lparr>cur_srv_idx := cur_srv_idx q + 1\<rparr>)\<rparr>))
              (\<lambda>(error1, st1). failover_loop n e qp error1 st1)
       else Inr (error, st))"

definition radius_client_query_timeout_cb ::
  "env \<Rightarrow> skt_p \<Rightarrow> nat \<Rightarrow> radius_cli \<Rightarrow> fault + radius_cli" where
  "radius_client_query_timeout_cb e sp i st =
     bindF (deref (sockets st) sp) (\<lambda>sk.
     bindF (index (queries_tmr sk) i) (\<lambda>u.
       (let st0 = set_tmr sp sk i TMR_DISABLED st in
        case ident u of
          None \<Rightarrow> Inr st0
        | Some qp \<Rightarrow>
            bindF (deref (queries st0) qp) (\<lambda>q.
              case q_skt q of
                None \<Rightarrow> Inl BadPointer
              | Some qsp \<Rightarrow>
                  bindF (deref (sockets st0) qsp) (\<lambda>qsk.
                    if thread_get_current e \<noteq> thr_tpt st0 then Inr st0
                    else
                      bindF (index (srv st0) (cur_srv_idx q)) (\<lambda>sv.
                        (let s = srv_s sv;
                             (q1, resend) = timeout_retrans s
                                (rnd_tm e (now st0) (retrans_time q))
                                (rnd_tm e (now st0 + 1) (retrans_time_max s)) q;
                             st1 = st0\<lparr>queries := store (queries st0) qp q1,
                                       now := now st0 + 2\<rparr>
                         in bindF (if resend
                                   then bindF (radius_client_send e qp st1) (\<lambda>(error, st2).
                                          failover_loop (cli_srv_count st2) e qp error st2)
                                   else Inr (Some ETIMEDOUT, st1))
                              (\<lambda>(error, st3).
                                 if error \<noteq> None
                                 then radius_client_query_done e qp None error st3
                                 else Inr st3))))))))"

subsection \<open>Receiver: \<^verbatim>\<open>radius_client_recv_cb\<close>\<close>

text \<open>
  Modelled from the spec: \<open>sa_addr_port_is_eq\<close> (net/socket_address.h is not part of
  the file) is not 0 when the two addresses agree in family, IP and port.
\<close>

definition sa_addr_port_is_eq :: "sockaddr_storage \<Rightarrow> sockaddr_storage \<Rightarrow> int" where
  "sa_addr_port_is_eq a b =
     (if ss_family a = ss_family b \<and> sa_port a = sa_port b \<and> sa_addr a = sa_addr b then 1 else 0)"

text \<open>
  The handler's argument \<^verbatim>\<open>buf\<close> is \<^verbatim>\<open>&skt->buf\<close> (line 562), the buffer of the socket
  \<^verbatim>\<open>arg\<close>. \<open>rcv_next\<close> is the label of line 1031: every path of the handler ends there
  and writes to the buffer. Modelled from the spec: \<open>io_buf_mark_empty\<close> stands for the
  macros \<^verbatim>\<open>IO_BUF_MARK_AS_EMPTY\<close> and \<^verbatim>\<open>IO_BUF_MARK_TRANSFER_ALL_FREE\<close> of utils/io_buf.h,
  which reset the buffer for the next datagram, and \<open>tp_task_pkt_rcvr_fill\<close> for the
  packet receiver task of the thread pool, which writes an arriving datagram into the
  buffer before it calls the handler; neither is part of the file.
\<close>

definition io_buf_mark_empty :: "io_buf \<Rightarrow> io_buf" where
  "io_buf_mark_empty b = b\<lparr>used := 0\<rparr>"

definition tp_task_pkt_rcvr_fill :: "skt_p \<Rightarrow> byte list \<Rightarrow> radius_cli \<Rightarrow> fault + radius_cli" where
  "tp_task_pkt_rcvr_fill sp bytes st =
     bindF (deref (sockets st) sp) (\<lambda>sk.
       Inr (st\<lparr>sockets := store (sockets st) sp
                  (sk\<lparr>skt_buf := (skt_buf sk)\<lparr>data := bytes @ drop (length bytes) (data (skt_buf sk)),
                                               used := length bytes\<rparr>\<rparr>)\<rparr>))"

definition rcv_next :: "skt_p \<Rightarrow> radius_cli \<Rightarrow> fault + radius_cli" where
  "rcv_next sp st =
     bindF (deref (sockets st) sp) (\<lambda>sk.
       Inr (st\<lparr>sockets := store (sockets st) sp
                  (sk\<lparr>skt_buf := io_buf_mark_empty (skt_buf sk)\<rparr>)\<rparr>))"

definition radius_client_recv_cb ::
  "env \<Rightarrow> skt_p \<Rightarrow> errno option \<Rightarrow> sockaddr_storage \<Rightarrow> radius_cli \<Rightarrow> fault + radius_cli" where
  "radius_client_recv_cb e sp error from_addr st =
     bindF (deref (sockets st) sp) (\<lambda>sk.
       bindF
         (if thread_get_current e \<noteq> thr_tpt st then Inr st
          else if error \<noteq> None then Inr st
          else if pkt_chk e (data (skt_buf sk)) (used (skt_buf sk)) \<noteq> None then Inr st
          else
            bindF (index (data (skt_buf sk)) 1) (\<lambda>pkt_id.
            bindF (index (queries_tmr sk) (unat pkt_id)) (\<lambda>u.
              case ident u of
                None \<Rightarrow> Inr st
              | Some qp \<Rightarrow>
                  bindF (deref (queries st) qp) (\<lambda>q.
                  bindF (index (srv st) (cur_srv_idx q)) (\<lambda>sv.
                    if sa_addr_port_is_eq from_addr (addr (srv_s sv)) = 0 then Inr st
                    else if pkt_verify e (data (skt_buf sk)) (shared_secret (srv_s sv))
                              (data (q_buf q)) \<noteq> 0
                    then Inr st
                    else radius_client_query_done e qp (Some sp) None st)))))
         (rcv_next sp))"

subsection \<open>Enqueue: \<^verbatim>\<open>radius_client_query\<close>\<close>

text \<open>
  Modelled from the spec: the constants of proto/radius.h and proto/radius_client.h,
  which are not part of the file: the \<^verbatim>\<open>AUTO\<close> sentinel lies outside 0..255, and
  Access-Request and NAS-Identifier have their RFC 2865 numbers.
\<close>

definition RADIUS_CLIENT_QUERY_ID_AUTO :: nat where
  "RADIUS_CLIENT_QUERY_ID_AUTO = SIZE_MAX"

definition RADIUS_PKT_TYPE_ACCESS_REQUEST :: byte where
  "RADIUS_PKT_TYPE_ACCESS_REQUEST = 1"

definition RADIUS_ATTR_TYPE_NAS_IDENTIFIER :: byte where
  "RADIUS_ATTR_TYPE_NAS_IDENTIFIER = 32"

definition radius_client_query_alloc ::
  "env \<Rightarrow> tpt_p \<Rightarrow> nat \<Rightarrow> io_buf \<Rightarrow> nat option \<Rightarrow> nat \<Rightarrow> radius_cli \<Rightarrow> (errno + query_p) \<times> radius_cli" where
  "radius_client_query_alloc e tpt qid buf cb arg st =
     (if cb = None then (Inl EINVAL, st)
      else if RADIUS_PKT_HDR_ID_MAX_COUNT \<le> qid \<and> RADIUS_CLIENT_QUERY_ID_AUTO \<noteq> qid
      then (Inl EINVAL, st)
      else if \<not> calloc_query e (now st) then (Inl ENOMEM, tick st)
      else (Inr (length (queries st)),
            tick (st\<lparr>queries := queries st @
              [Some \<lparr>q_skt = None, cur_srv_idx = 0, retrans_count = 0, retrans_time = 0,
                 retrans_duration = 0, q_tpt = tpt,
                 query_id_any = (RADIUS_CLIENT_QUERY_ID_AUTO = qid), query_id = qid,
                 q_buf = buf, cb_func = cb, udata = arg, q_error = None\<rparr>]\<rparr>)))"

definition radius_client_query ::
  "env \<Rightarrow> tpt_p option \<Rightarrow> nat \<Rightarrow> io_buf option \<Rightarrow> nat option \<Rightarrow> nat \<Rightarrow> radius_cli
    \<Rightarrow> errno option \<times> io_buf option \<times> query_p option \<times> radius_cli" where
  "radius_client_query e tpt qid buf cb arg st =
     (case tpt of
        None \<Rightarrow> (Some EINVAL, buf, None, st)
      | Some t \<Rightarrow>
          (case buf of
             None \<Rightarrow> (Some EINVAL, buf, None, st)
           | Some b \<Rightarrow>
               if cb = None then (Some EINVAL, buf, None, st)
               else
                 (let (error, b1) =
                        (if RADIUS_PKT_TYPE_ACCESS_REQUEST = obj_byte0 b
                         then pkt_attr_add e b RADIUS_ATTR_TYPE_NAS_IDENTIFIER
                                (of_nat (length (NAS_Identifier st))) (NAS_Identifier st)
                         else (None, b))
                  in if error \<noteq> None then (error, Some b1, None, st)
                     else
                       case radius_client_query_alloc e t qid b1 cb arg st of
                         (Inl err, st1) \<Rightarrow> (Some err, Some b1, None, st1)
                       | (Inr qp, st1) \<Rightarrow>
                           (case msg_send_rc e (now st1) of
                              Some err \<Rightarrow>
                                (Some err, Some b1, None, radius_client_query_free qp (tick st1))
                            | None \<Rightarrow>
                                (None, Some b1, Some qp,
                                 tick (st1\<lparr>tpt_msgs := tpt_msgs st1 @ [(t, QUERY_MSG qp)]\<rparr>))))))"

definition radius_client_query_tpt_msg_cb ::
  "env \<Rightarrow> query_p \<Rightarrow> radius_cli \<Rightarrow> fault + radius_cli" where
  "radius_client_query_tpt_msg_cb e qp st =
     (if thread_get_current e \<noteq> thr_tpt st then Inr st
      else
        bindF (radius_client_send_new e qp st) (\<lambda>(error, st1).
          if error \<noteq> None then radius_client_query_done e qp None error st1
          else Inr st1))"

subsection \<open>An example configuration\<close>

text \<open>
  A client whose worker is thread 1, with room for four servers and two sockets per pool,
  an environment in which every call into the runtime succeeds, and a 20-byte packet in
  a 40-byte buffer. The example codec appends an attribute as type, length and value.
\<close>

definition ex_env :: env where
  "ex_env = \<lparr>thread_get_current = 1, rnd_tm = (\<lambda>n d. 0x7f), pkt_sign = (\<lambda>b s. (None, b)),
     pkt_chk = (\<lambda>d n. None), pkt_verify = (\<lambda>p s r. 0),
     pkt_attr_add = (\<lambda>b t l d. (None, b\<lparr>data := take (used b) (data b) @ t # (l + 2) # d
         @ drop (used b + 2 + length d) (data b), used := used b + 2 + length d\<rparr>)),
     calloc_query = (\<lambda>n. True), calloc_skt = (\<lambda>n. True), skt_create_rc = (\<lambda>n. None),
     pkt_rcvr_create_rc = (\<lambda>n. None), ev_add_rc = (\<lambda>n. None), ev_enable_rc = (\<lambda>n. None),
     sendto_rc = (\<lambda>n a d. None), msg_send_rc = (\<lambda>n. None)\<rparr>"

definition ex_addr :: "8 word \<Rightarrow> sockaddr_storage" where
  "ex_addr h = \<lparr>ss_family = AF_INET, sa_addr = [10, 0, 0, h], sa_port = 1812\<rparr>"

definition ex_srv :: "8 word \<Rightarrow> radius_cli_srv" where
  "ex_srv h = \<lparr>enabled = True, srv_s = \<lparr>addr = ex_addr h,
     shared_secret = [115], retrans_time_init = 250, retrans_time_max = 0, retrans_duration_max = 0,
     retrans_count_max = 1\<rparr>\<rparr>"

definition zero_srv :: radius_cli_srv where
  "zero_srv = \<lparr>enabled = False, srv_s = \<lparr>addr = \<lparr>ss_family = 0, sa_addr = [], sa_port = 0\<rparr>,
     shared_secret = [], retrans_time_init = 0, retrans_time_max = 0, retrans_duration_max = 0,
     retrans_count_max = 0\<rparr>\<rparr>"

definition ex_cli :: "radius_cli_srv list \<Rightarrow> radius_cli" where
  "ex_cli svs = \<lparr>thr_sockets_min = 1, thr_sockets_max = 2, NAS_Identifier = [110, 97, 115],
     cli_srv_count = length svs,
     srv = svs @ replicate (4 - length svs) zero_srv, thr_tpt = 1,
     skts4 = \<lparr>skts_queries_count = 0, skt_count = 0, skts_skt = [None, None]\<rparr>,
     skts6 = \<lparr>skts_queries_count = 0, skt_count = 0, skts_skt = [None, None]\<rparr>,
     sockets = [], queries = [], now = 0, wire = [], tpt_msgs = [], cb_log = []\<rparr>"

definition ex_buf :: "8 word \<Rightarrow> 8 word \<Rightarrow> io_buf" where
  "ex_buf b0 code = \<lparr>obj_byte0 = b0, data = [code, 0, 0, 20] @ replicate 36 0, used = 20\<rparr>"

definition ex_q :: "io_buf \<Rightarrow> radius_cli_query" where
  "ex_q b = \<lparr>q_skt = None, cur_srv_idx = 0, retrans_count = 0, retrans_time = 0,
     retrans_duration = 0, q_tpt = 1, query_id_any = True, query_id = RADIUS_CLIENT_QUERY_ID_AUTO,
     q_buf = b, cb_func = Some 7, udata = 0, q_error = None\<rparr>"

subsection \<open>The slot invariant\<close>

text \<open>
  The invariant of the slot tables, in the words of the specification. \<open>query_linked\<close>:
  a query with a socket pointer is the occupant of that socket's slot at its packet ID.
  \<open>slot_linked\<close>: an occupied slot holds a live query whose socket pointer and packet ID
  lead back to the slot. \<open>skt_counted\<close>: a socket's table has 256 slots, its counter is
  the number of occupied slots, and the socket is listed in the pool it names.
  \<open>skts_counted\<close>: the first \<^verbatim>\<open>skt_count\<close> entries of a pool's array are distinct live
  sockets of that pool, and the pool's counter is the sum of their occupied slots.
\<close>

definition occupied :: "radius_cli_skt \<Rightarrow> nat" where
  "occupied sk = length (filter (\<lambda>u. ident u \<noteq> None) (queries_tmr sk))"

definition skts_list :: "radius_cli \<Rightarrow> pool_id \<Rightarrow> skt_p option list" where
  "skts_list st pid = take (skt_count (get_skts st pid)) (skts_skt (get_skts st pid))"

definition skt_occupied :: "radius_cli \<Rightarrow> skt_p option \<Rightarrow> nat" where
  "skt_occupied st x =
     (case x of
        None \<Rightarrow> 0
      | Some sp \<Rightarrow> (case deref (sockets st) sp of Inl f \<Rightarrow> 0 | Inr sk \<Rightarrow> occupied sk))"

definition query_linked :: "radius_cli \<Rightarrow> query_p \<Rightarrow> bool" where
  "query_linked st qp =
     (case deref (queries st) qp of
        Inl f \<Rightarrow> True
      | Inr q \<Rightarrow>
          (case q_skt q of
             None \<Rightarrow> True
           | Some sp \<Rightarrow>
               (case deref (sockets st) sp of
                  Inl f \<Rightarrow> False
                | Inr sk \<Rightarrow>
                    query_id q < length (queries_tmr sk)
                    \<and> ident (queries_tmr sk ! query_id q) = Some qp)))"

definition slot_linked :: "radius_cli \<Rightarrow> skt_p \<Rightarrow> nat \<Rightarrow> bool" where
  "slot_linked st sp i =
     (case deref (sockets st) sp of
        Inl f \<Rightarrow> True
      | Inr sk \<Rightarrow>
          (case ident (queries_tmr sk ! i) of
             None \<Rightarrow> True
           | Some qp \<Rightarrow>
               (case deref (queries st) qp of
                  Inl f \<Rightarrow> False
                | Inr q \<Rightarrow> q_skt q = Some sp \<and> query_id q = i)))"

definition skt_counted :: "radius_cli \<Rightarrow> skt_p \<Rightarrow> bool" where
  "skt_counted st sp =
     (case deref (sockets st) sp of
        Inl f \<Rightarrow> True
      | Inr sk \<Rightarrow>
          length (queries_tmr sk) = RADIUS_PKT_HDR_ID_MAX_COUNT
          \<and> skt_queries_index sk \<le> RADIUS_PKT_HDR_ID_MAX_COUNT
          \<and> skt_queries_count sk = occupied sk
          \<and> (case skt_skts sk of
                None \<Rightarrow> False
              | Some pid \<Rightarrow> Some sp \<in> set (skts_list st pid)))"

definition skts_counted :: "radius_cli \<Rightarrow> pool_id \<Rightarrow> bool" where
  "skts_counted st pid =
     (skt_count (get_skts st pid) \<le> length (skts_skt (get_skts st pid))
      \<and> thr_sockets_max st \<le> length (skts_skt (get_skts st pid))
      \<and> distinct (skts_list st pid)
      \<and> list_all (\<lambda>x. case x of
                          None \<Rightarrow> False
                        | Some sp \<Rightarrow>
                            (case deref (sockets st) sp of
                               Inl f \<Rightarrow> False
                             | Inr sk \<Rightarrow> skt_skts sk = Some pid))
           (skts_list st pid)
      \<and> skts_queries_count (get_skts st pid)
          = sum_list (map (skt_occupied st) (skts_list st pid)))"

definition slot_inv :: "radius_cli \<Rightarrow> bool" where
  "slot_inv st \<longleftrightarrow>
     list_all (query_linked st) [0..<length (queries st)]
     \<and> list_all (\<lambda>sp. skt_counted st sp
                      \<and> list_all (slot_linked st sp) [0..<RADIUS_PKT_HDR_ID_MAX_COUNT])
         [0..<length (sockets st)]
     \<and> skts_counted st SKTS4 \<and> skts_counted st SKTS6"

text \<open>
  The same invariant with quantifiers, on the parts of the state it reads: the queries,
  the sockets, the two pools and \<^verbatim>\<open>thr_sockets_max\<close>.
\<close>

type_synonym heap_view =
  "radius_cli_query option list \<times> radius_cli_skt option list \<times> (pool_id \<Rightarrow> radius_cli_skts) \<times> nat"

definition view :: "radius_cli \<Rightarrow> heap_view" where
  "view st = (queries st, sockets st, get_skts st, thr_sockets_max st)"

definition plist :: "(pool_id \<Rightarrow> radius_cli_skts) \<Rightarrow> pool_id \<Rightarrow> skt_p option list" where
  "plist pl pid = take (skt_count (pl pid)) (skts_skt (pl pid))"

definition occ :: "radius_cli_skt option list \<Rightarrow> skt_p option \<Rightarrow> nat" where
  "occ ss x =
     (case x of
        None \<Rightarrow> 0
      | Some sp \<Rightarrow> (case deref ss sp of Inl f \<Rightarrow> 0 | Inr sk \<Rightarrow> occupied sk))"

definition I1 :: "heap_view \<Rightarrow> bool" where
  "I1 v = (case v of (qs, ss, pl, m) \<Rightarrow>
     \<forall>qp q sp. deref qs qp = Inr q \<longrightarrow> q_skt q = Some sp \<longrightarrow>
       (\<exists>sk. deref ss sp = Inr sk \<and> query_id q < length (queries_tmr sk)
             \<and> ident (queries_tmr sk ! query_id q) = Some qp))"

definition I2 :: "heap_view \<Rightarrow> bool" where
  "I2 v = (case v of (qs, ss, pl, m) \<Rightarrow>
     \<forall>sp sk i qp. deref ss sp = Inr sk \<longrightarrow> i < 256 \<longrightarrow> ident (queries_tmr sk ! i) = Some qp \<longrightarrow>
       (\<exists>q. deref qs qp = Inr q \<and> q_skt q = Some sp \<and> query_id q = i))"

definition I3 :: "heap_view \<Rightarrow> bool" where
  "I3 v = (case v of (qs, ss, pl, m) \<Rightarrow>
     \<forall>sp sk. deref ss sp = Inr sk \<longrightarrow>
       length (queries_tmr sk) = 256 \<and> skt_queries_index sk \<le> 256
       \<and> skt_queries_count sk = occupied sk
       \<and> (\<exists>pid. skt_skts sk = Some pid \<and> Some sp \<in> set (plist pl pid)))"

definition I4 :: "heap_view \<Rightarrow> bool" where
  "I4 v = (case v of (qs, ss, pl, m) \<Rightarrow>
     \<forall>pid. skt_count (pl pid) \<le> length (skts_skt (pl pid))
       \<and> m \<le> length (skts_skt (pl pid))
       \<and> distinct (plist pl pid)
       \<and> (\<forall>x \<in> set (plist pl pid). \<exists>sp sk. x = Some sp \<and> deref ss sp = Inr sk
             \<and> skt_skts sk = Some pid)
       \<and> skts_queries_count (pl pid) = sum_list (map (occ ss) (plist pl pid)))"

definition inv_core :: "heap_view \<Rightarrow> bool" where
  "inv_core v \<longleftrightarrow> I1 v \<and> I2 v \<and> I3 v \<and> I4 v"

text \<open>
  \<open>holds P m\<close>: if the step \<open>m\<close> returns, its result satisfies \<open>P\<close>. \<open>same_cfg\<close>: two
  states agree on the worker thread, the socket limits and the registry. \<open>fresh_last\<close>:
  the last listed socket of a pool is a newly created one. \<open>ex_queued\<close>: the example
  client after one query with an automatic packet ID has been enqueued.
\<close>

definition holds :: "('a \<Rightarrow> bool) \<Rightarrow> fault + 'a \<Rightarrow> bool" where
  "holds P m = (case m of Inl f \<Rightarrow> True | Inr x \<Rightarrow> P x)"

definition same_cfg :: "radius_cli \<Rightarrow> radius_cli \<Rightarrow> bool" where
  "same_cfg st st' \<longleftrightarrow>
     thr_tpt st' = thr_tpt st \<and> thr_sockets_min st' = thr_sockets_min st
     \<and> thr_sockets_max st' = thr_sockets_max st \<and> srv st' = srv st
     \<and> cli_srv_count st' = cli_srv_count st"

definition fresh_last :: "pool_id \<Rightarrow> radius_cli \<Rightarrow> bool" where
  "fresh_last pid st \<longleftrightarrow>
     (let p = get_skts st pid in
      0 < skt_count p \<and> skt_count p \<le> length (skts_skt p)
      \<and> (\<exists>sp. skts_skt p ! (skt_count p - 1) = Some sp \<and> deref (sockets st) sp = Inr (new_skt pid)))"

definition ex_queued :: "radius_cli_srv list \<Rightarrow> radius_cli" where
  "ex_queued svs = (ex_cli svs)\<lparr>queries := [Some (ex_q (ex_buf 0x40 1))], now := 2,
     tpt_msgs := [(1, QUERY_MSG 0)]\<rparr>"

subsection \<open>Slot allocation with an automatic packet ID, in the words of the specification\<close>

text \<open>
  \<open>spec_probe_order\<close> is the two-segment order of the probe: from the hint to 255, then
  from 0 up to the hint. \<open>spec_auto_slot\<close> is the first free slot of a socket in that
  order, for a socket whose counter is below 256. \<open>spec_auto_find\<close> takes the sockets of
  a pool in the order of the pool's array and returns the first one that has such a slot.
  \<open>ex_skt\<close> and \<open>ex_attached\<close> are an example: one socket with hint 255 whose slots 255
  and 0 are taken by queries 0 and 1, and a third query that waits for a slot.
\<close>

definition spec_probe_order :: "nat \<Rightarrow> nat list" where
  "spec_probe_order hint = [hint..<256] @ [0..<hint]"

definition spec_auto_slot :: "radius_cli_skt \<Rightarrow> nat option" where
  "spec_auto_slot sk =
     (if skt_queries_count sk < 256
      then List.find (\<lambda>i. ident (queries_tmr sk ! i) = None) (spec_probe_order (skt_queries_index sk))
      else None)"

fun spec_auto_find :: "radius_cli_skt option list \<Rightarrow> skt_p option list \<Rightarrow> (skt_p \<times> nat) option" where
  "spec_auto_find h [] = None"
| "spec_auto_find h (x # xs) =
     (case x of
        None \<Rightarrow> spec_auto_find h xs
      | Some sp \<Rightarrow>
          (case deref h sp of
             Inl f \<Rightarrow> spec_auto_find h xs
           | Inr sk \<Rightarrow>
               (case spec_auto_slot sk of
                  Some i \<Rightarrow> Some (sp, i)
                | None \<Rightarrow> spec_auto_find h xs)))"

definition ex_skt :: radius_cli_skt where
  "ex_skt = \<lparr>skt_buf = \<lparr>obj_byte0 = 0, data = replicate RADIUS_PKT_MAX_SIZE 0, used = 0\<rparr>,
     skt_skts = Some SKTS4, skt_queries_count = 2, skt_queries_index = 255,
     queries_tmr = (replicate 256 empty_udata)
       [255 := \<lparr>ident = Some 0, ev_tmr = TMR_ENABLED 250\<rparr>,
        0 := \<lparr>ident = Some 1, ev_tmr = TMR_ENABLED 250\<rparr>]\<rparr>"

definition ex_attached :: radius_cli where
  "ex_attached = (ex_cli [ex_srv 1])\<lparr>
     skts4 := \<lparr>skts_queries_count = 2, skt_count = 1, skts_skt = [Some 0, None]\<rparr>,
     sockets := [Some ex_skt],
     queries := [Some ((ex_q (ex_buf 0x40 1))\<lparr>q_skt := Some 0, query_id := 255\<rparr>),
                 Some ((ex_q (ex_buf 0x40 1))\<lparr>q_skt := Some 0, query_id := 0\<rparr>),
                 Some (ex_q (ex_buf 0x40 1))]\<rparr>"

subsection \<open>The receiver's checks, in the words of the specification\<close>

text \<open>
  \<open>spec_recv_accepts\<close>, for the datagram in the buffer of the socket \<open>sk\<close>: the packet
  structure check passes, the slot at the packet's ID is occupied by a live query, the
  source address is that of the query's current server, and the authenticator verifies
  against the stored request with that server's shared secret.
\<close>

definition spec_recv_accepts ::
  "env \<Rightarrow> radius_cli \<Rightarrow> radius_cli_skt \<Rightarrow> sockaddr_storage \<Rightarrow> bool" where
  "spec_recv_accepts e st sk from_addr \<longleftrightarrow>
     pkt_chk e (data (skt_buf sk)) (used (skt_buf sk)) = None
     \<and> (case ident (queries_tmr sk ! unat (data (skt_buf sk) ! 1)) of
          None \<Rightarrow> False
        | Some qp \<Rightarrow>
            (case deref (queries st) qp of
               Inl f \<Rightarrow> False
             | Inr q \<Rightarrow>
                 sa_addr_port_is_eq from_addr (addr (srv_s (srv st ! cur_srv_idx q))) \<noteq> 0
                 \<and> pkt_verify e (data (skt_buf sk)) (shared_secret (srv_s (srv st ! cur_srv_idx q)))
                      (data (q_buf q)) = 0))"

subsection \<open>An example with two sockets\<close>

text \<open>
  Two queries with the fixed packet ID 5 are enqueued for one server and sent: the first
  takes slot 5 of a new socket 0, the second finds that slot taken and takes slot 5 of a
  new socket 1. \<open>ex_two_run\<close> is this run from the empty client; \<open>ex_one\<close> and \<open>ex_two\<close>
  are the states after the first and after the second send. \<open>ex_two_freed\<close> is \<open>ex_two\<close>
  after \<^verbatim>\<open>radius_client_socket_free\<close> of socket 0. \<open>ex_reply\<close> is an Access-Accept with
  packet ID 5, \<open>ex_two_rcvd\<close> is \<open>ex_two\<close> with this reply in the buffer of socket 1, and
  \<open>ex_two_done\<close> is the state after the completion of query 1 from there.
\<close>

definition ex_q5 :: radius_cli_query where
  "ex_q5 = (ex_q (ex_buf 0x40 1))\<lparr>query_id_any := False, query_id := 5\<rparr>"

definition ex_rt :: "64 word" where
  "ex_rt = send_new_retrans_time (srv_s (ex_srv 1)) 0x7f 0x7f"

definition ex_q5_sent :: "skt_p \<Rightarrow> radius_cli_query" where
  "ex_q5_sent sp = ex_q5\<lparr>q_skt := Some sp, retrans_time := ex_rt\<rparr>"

definition ex_skt5 :: "query_p \<Rightarrow> radius_cli_skt" where
  "ex_skt5 qp = (new_skt SKTS4)\<lparr>skt_queries_count := 1,
     queries_tmr := (replicate 256 empty_udata)[5 := \<lparr>ident = Some qp, ev_tmr = TMR_ENABLED ex_rt\<rparr>]\<rparr>"

definition ex_one :: radius_cli where
  "ex_one = (ex_cli [ex_srv 1])\<lparr>
     skts4 := \<lparr>skts_queries_count = 1, skt_count = 1, skts_skt = [Some 0, None]\<rparr>,
     sockets := [Some (ex_skt5 0)],
     queries := [Some (ex_q5_sent 0)],
     now := 7,
     wire := [(ex_addr 1, take 20 (data (ex_buf 0x40 1)))],
     tpt_msgs := [(1, QUERY_MSG 0)]\<rparr>"

definition ex_two :: radius_cli where
  "ex_two = (ex_cli [ex_srv 1])\<lparr>
     skts4 := \<lparr>skts_queries_count = 2, skt_count = 2, skts_skt = [Some 0, Some 1]\<rparr>,
     sockets := [Some (ex_skt5 0), Some (ex_skt5 1)],
     queries := [Some (ex_q5_sent 0), Some (ex_q5_sent 1)],
     now := 14,
     wire := [(ex_addr 1, take 20 (data (ex_buf 0x40 1))), (ex_addr 1, take 20 (data (ex_buf 0x40 1)))],
     tpt_msgs := [(1, QUERY_MSG 0), (1, QUERY_MSG 1)]\<rparr>"

definition ex_two_run :: "fault + radius_cli" where
  "ex_two_run =
     (case radius_client_query ex_env (Some 1) 5 (Some (ex_buf 0x40 1)) (Some 7) 0 (ex_cli [ex_srv 1]) of
        (rc1, b1, qh1, st1) \<Rightarrow>
          bindF (radius_client_query_tpt_msg_cb ex_env 0 st1) (\<lambda>st2.
            case radius_client_query ex_env (Some 1) 5 (Some (ex_buf 0x40 1)) (Some 7) 0 st2 of
              (rc3, b3, qh3, st3) \<Rightarrow> radius_client_query_tpt_msg_cb ex_env 1 st3))"

definition ex_two_freed :: radius_cli where
  "ex_two_freed = ex_two\<lparr>
     skts4 := \<lparr>skts_queries_count = 1, skt_count = 1, skts_skt = [None, Some 1]\<rparr>,
     sockets := [None, Some (ex_skt5 1)],
     queries := [None, Some (ex_q5_sent 1)],
     cb_log := [(0, Some EINTR)]\<rparr>"

definition ex_reply :: "byte list" where
  "ex_reply = [2, 5, 0, 20] @ replicate 16 0"

definition ex_skt5_rcvd :: radius_cli_skt where
  "ex_skt5_rcvd = (ex_skt5 1)\<lparr>skt_buf := \<lparr>obj_byte0 = 0,
     data = ex_reply @ replicate (RADIUS_PKT_MAX_SIZE - 20) 0, used = 20\<rparr>\<rparr>"

definition ex_two_rcvd :: radius_cli where
  "ex_two_rcvd = ex_two\<lparr>sockets := [Some (ex_skt5 0), Some ex_skt5_rcvd]\<rparr>"

definition ex_two_done :: radius_cli where
  "ex_two_done = ex_two\<lparr>
     skts4 := \<lparr>skts_queries_count = 1, skt_count = 1, skts_skt = [Some 0, None]\<rparr>,
     sockets := [Some (ex_skt5 0), None],
     queries := [Some (ex_q5_sent 0), None],
     cb_log := [(1, None)]\<rparr>"

section \<open>Properties\<close>

subsection \<open>Word arithmetic of the jitter\<close>

lemma low_bit_clear:
  fixes k :: "32 word"
  assumes "k AND 0x7f = 0"
  shows "k AND 1 = 0"
proof -
  have "(k AND 0x7f) AND 1 = 0" using assms by simp
  then show ?thesis by (simp add: and.assoc)
qed

lemma inc_is_or:
  fixes k :: "32 word"
  assumes "k AND 0x7f = 0"
  shows "k + 1 = k OR 1"
  using low_bit_clear [OF assms] by (rule disjunctive_add_eq_or)

lemma inc_low7:
  fixes k :: "32 word"
  assumes "k AND 0x7f = 0"
  shows "(k + 1) AND 0x7f = 1"
  using assms by (simp add: inc_is_or bit.conj_disj_distrib2)

lemma inc_bit7:
  fixes k :: "32 word"
  assumes "k AND 0x7f = 0"
  shows "(k + 1) AND 0x80 = k AND 0x80"
  using assms by (simp add: inc_is_or bit.conj_disj_distrib2)

lemma low7_le: "unat ((k::32 word) AND 0x7f) \<le> 127"
proof -
  have "unat (k AND 0x7f) \<le> unat (0x7f :: 32 word)"
    by (rule word_and_le1 [THEN word_le_nat_alt [THEN iffD1]])
  then show ?thesis by simp
qed

lemma ucast_low7: "unat (ucast ((k::32 word) AND 0x7f) :: 64 word) = unat (k AND 0x7f)"
proof -
  have "unat (k AND 0x7f) < 2 ^ 64" using low7_le [of k] by simp
  then show ?thesis by (simp add: unsigned_ucast_eq take_bit_nat_eq_self_iff)
qed

lemma rnd_factor_tm_low7:
  "rnd_factor_tm k AND 0x7f = (if k AND 0x7f = 0 then 1 else k AND 0x7f)"
  by (simp add: rnd_factor_tm_def inc_low7)

lemma rnd_factor_tm_bit7: "rnd_factor_tm k AND 0x80 = k AND 0x80"
  by (simp add: rnd_factor_tm_def inc_bit7)

lemma rnd_factor_divisor: "ucast (rnd_factor_tm k AND 0x7f) = spec_jitter_divisor k"
  by (simp add: rnd_factor_tm_low7 spec_jitter_divisor_def)

lemma rnd_factor_eq_spec: "radius_client_rnd_factor k t = spec_jitter k t"
  by (simp add: radius_client_rnd_factor_def Let_def rnd_factor_divisor rnd_factor_tm_bit7
      spec_jitter_def)

lemma spec_jitter_divisor_range:
  "1 \<le> unat (spec_jitter_divisor k) \<and> unat (spec_jitter_divisor k) \<le> 127"
proof (cases "k AND 0x7f = 0")
  case True
  then show ?thesis by (simp add: spec_jitter_divisor_def)
next
  case False
  then have "unat (k AND 0x7f) \<noteq> 0" by (simp add: unat_0_iff)
  then show ?thesis using False low7_le [of k]
    by (simp add: spec_jitter_divisor_def ucast_low7)
qed

lemma jitter_sub:
  fixes t j :: "64 word"
  assumes "j \<le> t"
  shows "\<bar>uint (t - j) - uint t\<bar> \<le> uint t"
proof -
  have "uint (t - j) = uint t - uint j" using assms by (simp add: uint_sub_if' word_le_def)
  moreover have "uint j \<le> uint t" using assms by (simp add: word_le_def)
  moreover have "0 \<le> uint j" by simp
  ultimately show ?thesis by linarith
qed

lemma jitter_add:
  fixes t j :: "64 word"
  assumes "j \<le> t"
  shows "\<bar>uint (t - (- j)) - uint t\<bar> \<le> uint t"
proof -
  have e: "t - (- j) = t + j" by simp
  have le: "uint j \<le> uint t" using assms by (simp add: word_le_def)
  have nn: "0 \<le> uint j" by simp
  have jb: "uint j < 2 ^ 64" using uint_bounded [of j] by simp
  have "uint (t + j) = uint t + uint j
      \<or> uint (t + j) = uint t + uint j - 2 ^ 64 \<and> 2 ^ 64 \<le> uint t + uint j"
    by (simp add: uint_plus_if')
  then show ?thesis unfolding e using le nn jb by linarith
qed

lemma div_le_self_word: "(t::64 word) div d \<le> t"
  by (simp add: word_le_nat_alt unat_div)

lemma rnd_factor_distance:
  "\<bar>uint (t - radius_client_rnd_factor k t) - uint t\<bar> \<le> uint t"
  by (simp add: rnd_factor_eq_spec spec_jitter_def jitter_sub jitter_add div_le_self_word
      del: diff_minus_eq_add)

text \<open>
  C6. \<^verbatim>\<open>radius_client_rnd_factor\<close> is the specification's jitter: \<open>t\<close> divided by the low
  seven bits of \<open>k\<close> (by 1 when they are all zero, so the divisor the code uses lies in
  1..127 and is never zero), negated in \<^verbatim>\<open>uint64_t\<close> arithmetic when bit 7 of \<open>k\<close> is
  set. For every \<open>t > 0\<close> and every \<open>k\<close> the interval \<open>t - jitter(t)\<close>, read as the
  unsigned 64-bit value the code stores, is at distance at most \<open>t\<close> from \<open>t\<close> and is not
  negative.
\<close>

theorem rnd_factor_jitter_bounds:
  assumes "0 < t"
  shows "radius_client_rnd_factor k t = spec_jitter k t
    \<and> (ucast (rnd_factor_tm k AND 0x7f) :: 64 word) \<noteq> 0
    \<and> 1 \<le> unat (spec_jitter_divisor k) \<and> unat (spec_jitter_divisor k) \<le> 127
    \<and> \<bar>uint (t - radius_client_rnd_factor k t) - uint t\<bar> \<le> uint t
    \<and> 0 \<le> uint (t - radius_client_rnd_factor k t)"
proof -
  have "unat (spec_jitter_divisor k) \<noteq> 0"
    using spec_jitter_divisor_range [of k] by simp
  then have "spec_jitter_divisor k \<noteq> 0" by (simp add: unat_0_iff)
  then show ?thesis
    using spec_jitter_divisor_range [of k] rnd_factor_distance [of t k]
    by (simp add: rnd_factor_eq_spec rnd_factor_divisor)
qed

theorem rnd_factor_jitter_bounds_witness:
  "(0::64 word) < 1000
    \<and> radius_client_rnd_factor 0x81 1000 = - 1000
    \<and> 1000 - radius_client_rnd_factor 0x81 1000 = 2000
    \<and> \<bar>uint (1000 - radius_client_rnd_factor 0x81 1000) - uint (1000::64 word)\<bar> \<le> uint (1000::64 word)"
proof -
  have h: "(0::64 word) < 1000" by simp
  have v: "radius_client_rnd_factor 0x81 1000 = - 1000"
    by (simp add: radius_client_rnd_factor_def rnd_factor_tm_def)
  show ?thesis using h v rnd_factor_jitter_bounds [OF h, of "0x81"] by simp
qed

subsection \<open>Server registry\<close>

lemma find_eq_upt: "List.find (\<lambda>i. i = h) [0..<n] = (if h < n then Some h else None)"
proof (cases "h < n")
  case True
  have "List.find (\<lambda>i. i = h) [0..<n] = Some h"
    unfolding find_Some_iff using True by (intro exI [of _ h]) auto
  with True show ?thesis by simp
next
  case False
  then show ?thesis by (simp add: find_None_iff)
qed

lemma server_remove_unfold:
  "radius_client_server_remove ssz r h =
     (if h < raw_cli_srv_count r then server_remove_at ssz h r else Inr r)"
  by (simp add: radius_client_server_remove_def find_eq_upt)

lemma remove_by_addr_first_mismatch:
  assumes "0 < raw_cli_srv_count r" and "is_eq (srv_at ssz r 0) a = 0"
  shows "radius_client_server_remove_by_addr ssz is_eq r a = server_remove_at ssz 0 r"
proof -
  have "List.find (\<lambda>i. \<not> 0 \<noteq> is_eq (srv_at ssz r i) a) [0..<raw_cli_srv_count r] = Some 0"
    unfolding find_Some_iff using assms by (intro exI [of _ 0]) auto
  then show ?thesis by (simp add: radius_client_server_remove_by_addr_def)
qed

lemma remove_last_of_two:
  assumes "length a = ssz" and "length b = ssz" and "0 < ssz"
  shows "radius_client_server_remove ssz
           \<lparr>raw_servers_max = 4, raw_cli_srv_count = 2, raw_srv = a @ b @ replicate (2 * ssz) 0\<rparr> 1
         = Inr \<lparr>raw_servers_max = 4, raw_cli_srv_count = 1,
                raw_srv = replicate ssz 0 @ b @ replicate (2 * ssz) 0\<rparr>"
  using assms
  by (simp add: server_remove_unfold server_remove_at_def memmove_def memset_def size_t_dec_def)

lemma remove_by_addr_of_two:
  assumes "length a = ssz" and "length b = ssz" and "sizeof_ptr \<le> ssz"
    and "is_eq a x = 0"
  shows "radius_client_server_remove_by_addr ssz is_eq
           \<lparr>raw_servers_max = 4, raw_cli_srv_count = 2, raw_srv = a @ b @ replicate (2 * ssz) 0\<rparr> x
         = Inr \<lparr>raw_servers_max = 4, raw_cli_srv_count = 1,
                raw_srv = replicate ssz 0 @ b @ replicate (2 * ssz) 0\<rparr>"
proof -
  let ?r = "\<lparr>raw_servers_max = 4, raw_cli_srv_count = 2, raw_srv = a @ b @ replicate (2 * ssz) 0\<rparr>"
  have p: "0 < ssz" using assms(3) by (simp add: sizeof_ptr_def)
  have "srv_at ssz ?r 0 = a" using assms(1) by (simp add: srv_at_def)
  then have "radius_client_server_remove_by_addr ssz is_eq ?r x = server_remove_at ssz 0 ?r"
    using assms(4) by (intro remove_by_addr_first_mismatch) simp_all
  also have "\<dots> = Inr \<lparr>raw_servers_max = 4, raw_cli_srv_count = 1,
                raw_srv = replicate ssz 0 @ b @ replicate (2 * ssz) 0\<rparr>"
    using assms(1,2,3) p
    by (simp add: server_remove_at_def memmove_def memset_def size_t_dec_def sizeof_ptr_def)
  finally show ?thesis .
qed

text \<open>
  C4 (the code departs from the claim). A registry holds two entries \<open>a\<close> and \<open>b\<close> of
  \<open>ssz\<close> bytes each. Removing \<open>b\<close> by handle leaves one entry, and that entry is all
  zero: the bytes of \<open>a\<close>, which the claim says remain, are cleared, because the entry
  cleared after the decrement is the one at the new \<open>count - 1\<close>. Removing by the address
  of \<open>b\<close> (an address \<open>x\<close> that the first entry \<open>a\<close> does not match) picks the first entry
  that does not match, so it removes \<open>a\<close>, moves only a pointer's worth of bytes, and
  again leaves a zeroed entry 0.
\<close>

theorem server_remove_clears_survivor:
  assumes "length a = ssz" and "length b = ssz" and "sizeof_ptr \<le> ssz" and "is_eq a x = 0"
  shows "radius_client_server_remove ssz
           \<lparr>raw_servers_max = 4, raw_cli_srv_count = 2, raw_srv = a @ b @ replicate (2 * ssz) 0\<rparr> 1
         = Inr \<lparr>raw_servers_max = 4, raw_cli_srv_count = 1,
                raw_srv = replicate ssz 0 @ b @ replicate (2 * ssz) 0\<rparr>
      \<and> radius_client_server_remove_by_addr ssz is_eq
           \<lparr>raw_servers_max = 4, raw_cli_srv_count = 2, raw_srv = a @ b @ replicate (2 * ssz) 0\<rparr> x
         = Inr \<lparr>raw_servers_max = 4, raw_cli_srv_count = 1,
                raw_srv = replicate ssz 0 @ b @ replicate (2 * ssz) 0\<rparr>"
proof -
  have "0 < ssz" using assms(3) by (simp add: sizeof_ptr_def)
  then show ?thesis
    using remove_last_of_two [OF assms(1,2)]
      remove_by_addr_of_two [of a ssz b is_eq x, OF assms] by simp
qed

theorem server_remove_clears_survivor_witness:
  "radius_client_server_remove 304
     \<lparr>raw_servers_max = 4, raw_cli_srv_count = 2,
        raw_srv = replicate 304 0xAA @ replicate 304 0xBB @ replicate (2 * 304) 0\<rparr> 1
   = Inr \<lparr>raw_servers_max = 4, raw_cli_srv_count = 1,
          raw_srv = replicate 304 0 @ replicate 304 0xBB @ replicate (2 * 304) 0\<rparr>
   \<and> radius_client_server_remove_by_addr 304 (\<lambda>ent x. if ent = x then 1 else 0)
     \<lparr>raw_servers_max = 4, raw_cli_srv_count = 2,
        raw_srv = replicate 304 0xAA @ replicate 304 0xBB @ replicate (2 * 304) 0\<rparr>
     (replicate 304 0xBB)
   = Inr \<lparr>raw_servers_max = 4, raw_cli_srv_count = 1,
          raw_srv = replicate 304 0 @ replicate 304 0xBB @ replicate (2 * 304) 0\<rparr>"
  using server_remove_clears_survivor
    [of "replicate 304 0xAA" 304 "replicate 304 0xBB" "\<lambda>ent x. if ent = x then 1 else 0"
        "replicate 304 0xBB"]
  by (simp add: sizeof_ptr_def)

text \<open>
  C10 (the code departs from the claim). Removing the only entry of a registry (count 1,
  handle 0) decrements the count to 0 and then clears the entry at index \<open>0 - 1\<close>, which
  wraps to \<^verbatim>\<open>SIZE_MAX\<close>: the \<^verbatim>\<open>memset\<close> lies outside the allocated array of
  \<open>raw_servers_max\<close> entries.
\<close>

theorem server_remove_last_entry_out_of_bounds:
  assumes "0 < ssz" and "length (raw_srv r) = raw_servers_max r * ssz"
    and "raw_servers_max r \<le> SIZE_MAX" and "raw_cli_srv_count r = 1"
  shows "radius_client_server_remove ssz r 0 = Inl OutOfBounds"
proof -
  have "raw_servers_max r * ssz \<le> SIZE_MAX * ssz" using assms(3) by (rule mult_le_mono1)
  then have "length (raw_srv r) < SIZE_MAX * ssz + ssz" using assms(1,2) by linarith
  then show ?thesis using assms(1,4)
    by (simp add: server_remove_unfold server_remove_at_def memmove_def memset_def size_t_dec_def)
qed

theorem server_remove_last_entry_out_of_bounds_witness:
  "radius_client_server_remove 304
     \<lparr>raw_servers_max = 4, raw_cli_srv_count = 1, raw_srv = replicate (4 * 304) 0xAA\<rparr> 0
   = Inl OutOfBounds"
  using server_remove_last_entry_out_of_bounds
    [of 304 "\<lparr>raw_servers_max = 4, raw_cli_srv_count = 1, raw_srv = replicate (4 * 304) 0xAA\<rparr>"]
  by (simp add: SIZE_MAX_def sizeof_ptr_def)

subsection \<open>Basic facts of the model\<close>

declare next_enabled.simps [simp del] probe.simps [simp del]

lemma bindF_simps [simp]:
  "bindF (Inl f) g = Inl f"
  "bindF (Inr x) g = g x"
  by (simp_all add: bindF_def)

lemma bindF_Inr_iff:
  "bindF m g = Inr y \<longleftrightarrow> (\<exists>x. m = Inr x \<and> g x = Inr y)"
  by (cases m) simp_all

lemma deref_append_new [simp]: "deref (h @ [Some v]) (length h) = Inr v"
  by (simp add: deref_def)

lemma deref_store [simp]:
  "deref (store h p v) p' = (if p' = p \<and> p < length h then Inr v else deref h p')"
  by (auto simp: deref_def store_def)

lemma deref_release [simp]:
  "deref (release h p) p' = (if p' = p then Inl BadPointer else deref h p')"
  by (auto simp: deref_def release_def)

lemma length_store [simp]: "length (store h p v) = length h"
  by (simp add: store_def)

lemma length_release [simp]: "length (release h p) = length h"
  by (simp add: release_def)

lemma deref_Inr_length: "deref h p = Inr v \<Longrightarrow> p < length h"
  by (auto simp: deref_def split: if_splits)

lemmas model_defs =
  radius_client_query_tpt_msg_cb_def radius_client_send_new_def radius_client_query_done_def
  radius_client_query_unlink_skt_def query_done_unlinked_def radius_client_query_done_tpt_msg_cb_def
  radius_client_query_free_def alloc_slot_def link_query_def sign_and_send_def radius_client_send_def
  radius_client_socket_alloc_def radius_client_socket_free_def skts_remove_def same_skts_def
  skt_find_slot_def send_new_retrans_time_def radius_client_rnd_factor_def rnd_factor_tm_def
  radius_client_query_timeout_cb_def timeout_retrans_def next_interval_def set_tmr_def new_skt_def
  deref_def index_def store_def release_def tick_def get_skts_def set_skts_def skts_of_family_def
  empty_udata_def AF_INET_def RADIUS_PKT_HDR_ID_MAX_COUNT_def size_t_dec_def

lemmas ex_defs = ex_env_def ex_buf_def ex_cli_def ex_q_def ex_srv_def ex_addr_def zero_srv_def

subsection \<open>Enqueue and the first send\<close>

lemma ex_enqueue:
  "radius_client_query ex_env (Some 1) RADIUS_CLIENT_QUERY_ID_AUTO
     (Some (ex_buf 0x40 1)) (Some 7) 0 (ex_cli svs)
   = (None, Some (ex_buf 0x40 1), Some 0,
      (ex_cli svs)\<lparr>queries := [Some (ex_q (ex_buf 0x40 1))], now := 2, tpt_msgs := [(1, QUERY_MSG 0)]\<rparr>)"
  by (simp add: radius_client_query_def radius_client_query_alloc_def ex_env_def ex_buf_def
      ex_cli_def ex_q_def tick_def RADIUS_PKT_TYPE_ACCESS_REQUEST_def)

text \<open>
  C1 (the code departs from the claim). Two enabled servers, each with
  \<^verbatim>\<open>retrans_count_max = 1\<close>. A query is enqueued, the worker's handler sends it to the
  first server, and the timer fires once. The retry budget of the first server is then
  exhausted (\<open>retrans_count = 1\<close>), and the handler completes the query with
  \<^verbatim>\<open>ETIMEDOUT\<close> at once: the datagrams sent before and after the timeout are the same
  single datagram to the first server, so the second server is never tried. The claim
  says the handler fails over to the next server first.
\<close>

theorem timeout_exhausted_budget_skips_failover:
  "(case radius_client_query ex_env (Some 1) RADIUS_CLIENT_QUERY_ID_AUTO
           (Some (ex_buf 0x40 1)) (Some 7) 0 (ex_cli [ex_srv 1, ex_srv 2]) of
      (rc, b, qh, st1) \<Rightarrow>
        bindF (radius_client_query_tpt_msg_cb ex_env 0 st1) (\<lambda>st2.
        bindF (radius_client_query_timeout_cb ex_env 0 0 st2) (\<lambda>st3.
          Inr (rc, map fst (wire st2), map fst (wire st3), cb_log st3))))
   = Inr (None, [ex_addr 1], [ex_addr 1], [(0, Some ETIMEDOUT)])"
  unfolding ex_enqueue
  by (simp add: model_defs ex_defs next_enabled.simps probe.simps Let_def)

text \<open>
  C3 (the code departs from the claim). The test of line 729 reads the first byte of
  the \<^verbatim>\<open>io_buf_t\<close> object, not the packet's code byte. A buffer that holds an
  Access-Request (code 1) in an object whose first byte is \<open>0x40\<close> is enqueued unchanged,
  without the NAS-Identifier; a buffer that holds an Accounting-Request (code 4) in an
  object whose first byte is 1 gets the attribute (type 32, the three bytes of the
  example identifier) appended.
\<close>

theorem query_nas_identifier_keyed_on_object_byte:
  "fst (snd (radius_client_query ex_env (Some 1) RADIUS_CLIENT_QUERY_ID_AUTO
             (Some (ex_buf 0x40 1)) (Some 7) 0 (ex_cli [ex_srv 1]))) = Some (ex_buf 0x40 1)
   \<and> data (ex_buf 0x40 1) ! 0 = RADIUS_PKT_TYPE_ACCESS_REQUEST
   \<and> fst (snd (radius_client_query ex_env (Some 1) RADIUS_CLIENT_QUERY_ID_AUTO
             (Some (ex_buf 1 4)) (Some 7) 0 (ex_cli [ex_srv 1])))
       = Some \<lparr>obj_byte0 = 1,
                data = [4, 0, 0, 20] @ replicate 16 0 @ [32, 5, 110, 97, 115] @ replicate 15 0,
                used = 25\<rparr>
   \<and> data (ex_buf 1 4) ! 0 \<noteq> RADIUS_PKT_TYPE_ACCESS_REQUEST"
  by (simp add: radius_client_query_def radius_client_query_alloc_def ex_env_def ex_buf_def
      ex_cli_def tick_def RADIUS_PKT_TYPE_ACCESS_REQUEST_def RADIUS_ATTR_TYPE_NAS_IDENTIFIER_def
      Let_def)

text \<open>
  C5, as the claim states it, fails: with an empty registry the enqueue call of the
  example returns 0, not an error.
\<close>

theorem query_empty_registry_returns_ok:
  "cli_srv_count (ex_cli []) = 0
   \<and> fst (radius_client_query ex_env (Some 1) RADIUS_CLIENT_QUERY_ID_AUTO
           (Some (ex_buf 0x40 1)) (Some 7) 0 (ex_cli [])) = None"
  unfolding ex_enqueue by (simp add: ex_cli_def)

text \<open>
  C5, amended. When a query is enqueued while the registry is empty (the arguments are
  valid, the allocation and the message post succeed), \<^verbatim>\<open>radius_client_query\<close> returns 0
  with a handle and posts the query to the worker without invoking the callback. The
  worker's handler then gets \<^verbatim>\<open>EDESTADDRREQ\<close> from \<^verbatim>\<open>radius_client_send_new\<close>, delivers
  it through the completion callback and frees the query.
\<close>

theorem query_empty_registry_async_error:
  assumes srv0: "cli_srv_count st = 0" and thr: "thread_get_current e = thr_tpt st"
    and mem: "calloc_query e (now st)" and msg: "msg_send_rc e (now st + 1) = None"
    and attr: "obj_byte0 b \<noteq> RADIUS_PKT_TYPE_ACCESS_REQUEST
         \<or> fst (pkt_attr_add e b RADIUS_ATTR_TYPE_NAS_IDENTIFIER
                 (of_nat (length (NAS_Identifier st))) (NAS_Identifier st)) = None"
    and qid: "qid < RADIUS_PKT_HDR_ID_MAX_COUNT \<or> qid = RADIUS_CLIENT_QUERY_ID_AUTO"
  shows "\<exists>b1 st1 st2.
           radius_client_query e (Some (thr_tpt st)) qid (Some b) (Some f) arg st
             = (None, Some b1, Some (length (queries st)), st1)
         \<and> tpt_msgs st1 = tpt_msgs st @ [(thr_tpt st, QUERY_MSG (length (queries st)))]
         \<and> cb_log st1 = cb_log st
         \<and> radius_client_query_tpt_msg_cb e (length (queries st)) st1 = Inr st2
         \<and> cb_log st2 = cb_log st @ [(length (queries st), Some EDESTADDRREQ)]
         \<and> deref (queries st2) (length (queries st)) = Inl BadPointer"
proof -
  define b1 where "b1 = (if RADIUS_PKT_TYPE_ACCESS_REQUEST = obj_byte0 b
     then snd (pkt_attr_add e b RADIUS_ATTR_TYPE_NAS_IDENTIFIER
                 (of_nat (length (NAS_Identifier st))) (NAS_Identifier st)) else b)"
  define q where "q = \<lparr>q_skt = None, cur_srv_idx = 0, retrans_count = 0, retrans_time = 0,
                 retrans_duration = 0, q_tpt = thr_tpt st,
                 query_id_any = (RADIUS_CLIENT_QUERY_ID_AUTO = qid), query_id = qid,
                 q_buf = b1, cb_func = Some f, udata = arg, q_error = None\<rparr>"
  define st1 where "st1 = st\<lparr>queries := queries st @ [Some q], now := now st + 2,
     tpt_msgs := tpt_msgs st @ [(thr_tpt st, QUERY_MSG (length (queries st)))]\<rparr>"
  define st2 where "st2 = st1\<lparr>queries := release (store (queries st1) (length (queries st))
        (q\<lparr>q_error := Some EDESTADDRREQ\<rparr>)) (length (queries st)),
     cb_log := cb_log st @ [(length (queries st), Some EDESTADDRREQ)]\<rparr>"
  have alloc: "radius_client_query_alloc e (thr_tpt st) qid b1 (Some f) arg st
      = (Inr (length (queries st)), tick (st\<lparr>queries := queries st @ [Some q]\<rparr>))"
    using mem qid by (auto simp: radius_client_query_alloc_def q_def)
  have enq: "radius_client_query e (Some (thr_tpt st)) qid (Some b) (Some f) arg st
             = (None, Some b1, Some (length (queries st)), st1)"
  proof (cases "RADIUS_PKT_TYPE_ACCESS_REQUEST = obj_byte0 b")
    case True
    with attr obtain x where "pkt_attr_add e b RADIUS_ATTR_TYPE_NAS_IDENTIFIER
                 (of_nat (length (NAS_Identifier st))) (NAS_Identifier st) = (None, x)"
      by (cases "pkt_attr_add e b RADIUS_ATTR_TYPE_NAS_IDENTIFIER
                 (of_nat (length (NAS_Identifier st))) (NAS_Identifier st)") auto
    with True alloc msg show ?thesis
      by (simp add: radius_client_query_def b1_def st1_def tick_def)
  next
    case False
    with alloc msg show ?thesis
      by (simp add: radius_client_query_def b1_def st1_def tick_def)
  qed
  have snd_new: "radius_client_send_new e (length (queries st)) st1 = Inr (Some EDESTADDRREQ, st1)"
    using srv0 thr by (simp add: radius_client_send_new_def st1_def)
  have done_q:
    "radius_client_query_done e (length (queries st)) None (Some EDESTADDRREQ) st1 = Inr st2"
    using thr
    by (simp add: radius_client_query_done_def radius_client_query_unlink_skt_def
        query_done_unlinked_def radius_client_query_done_tpt_msg_cb_def
        radius_client_query_free_def st1_def st2_def q_def)
  have hdl: "radius_client_query_tpt_msg_cb e (length (queries st)) st1 = Inr st2"
    using thr snd_new done_q by (simp add: radius_client_query_tpt_msg_cb_def st1_def)
  show ?thesis
    using enq hdl by (intro exI [of _ b1] exI [of _ st1] exI [of _ st2]) (simp add: st1_def st2_def)
qed

theorem query_empty_registry_async_error_witness:
  "\<exists>b1 st1 st2.
     radius_client_query ex_env (Some 1) 5 (Some (ex_buf 0x40 1)) (Some 7) 0 (ex_cli [])
       = (None, Some b1, Some 0, st1)
     \<and> tpt_msgs st1 = [(1, QUERY_MSG 0)]
     \<and> cb_log st1 = []
     \<and> radius_client_query_tpt_msg_cb ex_env 0 st1 = Inr st2
     \<and> cb_log st2 = [(0, Some EDESTADDRREQ)]
     \<and> deref (queries st2) 0 = Inl BadPointer"
  using query_empty_registry_async_error [of "ex_cli []" ex_env "ex_buf 0x40 1" 5 7 0]
  by (simp add: ex_defs RADIUS_PKT_TYPE_ACCESS_REQUEST_def RADIUS_PKT_HDR_ID_MAX_COUNT_def)

subsection \<open>The duration budget of the timer handler\<close>

lemma uint_add_le: "uint (a + b) \<le> uint a + uint (b :: 64 word)"
  by (simp add: uint_plus_if')

lemma uint_add_exact: "uint a + uint b < 2 ^ 64 \<Longrightarrow> uint (a + b :: 64 word) = uint a + uint b"
  by (simp add: uint_plus_if')

lemma jitter_upper: "uint (t - radius_client_rnd_factor k t) \<le> 2 * uint t"
  using rnd_factor_distance [of t k] by linarith

lemma double_jitter_upper: "uint (2 * t - radius_client_rnd_factor k t) \<le> 3 * uint t"
proof -
  have "2 * t - radius_client_rnd_factor k t = t + (t - radius_client_rnd_factor k t)"
    by simp
  then show ?thesis
    using uint_add_le [of t "t - radius_client_rnd_factor k t"] jitter_upper [of t k] by simp
qed

lemma next_interval_upper: "uint (next_interval s k1 k2 t) \<le> 6 * uint t"
proof (cases "retrans_time_max s \<noteq> 0
    \<and> retrans_time_max s < 2 * t - radius_client_rnd_factor k1 t")
  case True
  then have "uint (retrans_time_max s) < uint (2 * t - radius_client_rnd_factor k1 t)"
    by (simp add: word_less_def)
  with double_jitter_upper [of t k1] have "uint (retrans_time_max s) \<le> 3 * uint t" by linarith
  with jitter_upper [of "retrans_time_max s" k2] True show ?thesis
    by (simp add: next_interval_def Let_def)
next
  case False
  then have "next_interval s k1 k2 t = 2 * t - radius_client_rnd_factor k1 t"
    by (auto simp: next_interval_def Let_def)
  with double_jitter_upper [of t k1] have "uint (next_interval s k1 k2 t) \<le> 3 * uint t"
    by simp
  moreover have "0 \<le> uint t" by simp
  ultimately show ?thesis by linarith
qed

lemma timeout_retrans_budget:
  assumes D: "retrans_duration_max s \<noteq> 0" and small: "uint (retrans_duration_max s) < 2 ^ 61"
    and wb: "within_budget s q"
    and r: "timeout_retrans s k1 k2 q = (q', resend)"
  shows "uint (retrans_duration q') = uint (retrans_duration q) + uint (retrans_time q)"
    and "uint (retrans_duration q') \<le> uint (retrans_duration_max s)"
    and "resend \<Longrightarrow> within_budget s q'"
proof -
  let ?d = "retrans_duration q" and ?t = "retrans_time q" and ?D = "retrans_duration_max s"
  let ?rt1 = "next_interval s k1 k2 ?t"
  have le: "uint ?d + uint ?t \<le> uint ?D" using wb by (simp add: within_budget_def)
  then have d1: "uint (?d + ?t) = uint ?d + uint ?t"
    using small by (intro uint_add_exact) simp
  have dq: "retrans_duration q' = ?d + ?t"
    using r by (auto simp: timeout_retrans_def Let_def split: if_splits)
  show "uint (retrans_duration q') = uint ?d + uint ?t" by (simp add: dq d1)
  show "uint (retrans_duration q') \<le> uint ?D" using le by (simp add: dq d1)
  show "within_budget s q'" if "resend"
  proof -
    have nb: "\<not> ?D \<le> ?d + ?t"
      using r that D by (auto simp: timeout_retrans_def Let_def split: if_splits)
    then have lt: "uint ?d + uint ?t < uint ?D" by (simp add: word_le_def d1)
    have small': "uint ?D < 2305843009213693952" using small by simp
    have "0 \<le> uint ?d" and "0 \<le> uint ?t" by simp_all
    with lt small' next_interval_upper [of s k1 k2 ?t]
    have "uint ?d + uint ?t + uint ?rt1 < 18446744073709551616" by linarith
    then have "uint (?d + ?t) + uint ?rt1 < 2 ^ 64" unfolding d1 by simp
    then have s1: "uint (?d + ?t + ?rt1) = uint ?d + uint ?t + uint ?rt1"
      using uint_add_exact [of "?d + ?t" ?rt1] d1 by simp
    show ?thesis
    proof (cases "?D \<le> ?d + ?t + ?rt1")
      case True
      with r D nb that have "retrans_time q' = ?D - (?d + ?t)"
        by (auto simp: timeout_retrans_def Let_def split: if_splits)
      moreover have "uint (?D - (?d + ?t)) = uint ?D - uint (?d + ?t)"
        using lt d1 by (simp add: uint_sub_if')
      ultimately show ?thesis by (simp add: within_budget_def dq d1)
    next
      case False
      with r D nb that have "retrans_time q' = ?rt1"
        by (auto simp: timeout_retrans_def Let_def split: if_splits)
      moreover from False have "uint ?d + uint ?t + uint ?rt1 < uint ?D"
        by (simp add: word_le_def s1)
      ultimately show ?thesis by (simp add: within_budget_def dq d1)
    qed
  qed
qed

lemma timeouts_run_budget:
  assumes "retrans_duration_max s \<noteq> 0" and "uint (retrans_duration_max s) < 2 ^ 61"
    and "within_budget s q"
  shows "uint (retrans_duration (timeouts_run s ks q)) \<le> uint (retrans_duration_max s)"
  using assms(3)
proof (induction ks arbitrary: q)
  case Nil
  have "0 \<le> uint (retrans_time q)" by simp
  with Nil show ?case unfolding within_budget_def timeouts_run.simps by linarith
next
  case (Cons k ks)
  obtain q1 resend where r: "timeout_retrans s (fst k) (snd k) q = (q1, resend)"
    by (cases "timeout_retrans s (fst k) (snd k) q")
  show ?case
  proof (cases resend)
    case True
    with timeout_retrans_budget(3) [OF assms(1,2) Cons.prems r] have "within_budget s q1" by simp
    from Cons.IH [OF this] r True show ?thesis by simp
  next
    case False
    with timeout_retrans_budget(2) [OF assms(1,2) Cons.prems r] r show ?thesis by simp
  qed
qed

lemma timeout_retrans_clamp:
  assumes "timeout_retrans s k1 k2 q = (q', resend)"
    and "\<not> (retrans_count_max s \<noteq> 0 \<and> retrans_count_max s \<le> retrans_count q + 1)"
    and "retrans_duration_max s \<noteq> 0"
    and "retrans_duration q + retrans_time q < retrans_duration_max s"
    and "retrans_duration_max s
           \<le> retrans_duration q + retrans_time q + next_interval s k1 k2 (retrans_time q)"
  shows "retrans_time q' = retrans_duration_max s - (retrans_duration q + retrans_time q)
     \<and> (resend \<longleftrightarrow> \<not> retrans_time q' < retrans_time_init s)"
  using assms by (auto simp: timeout_retrans_def Let_def split: if_splits)

text \<open>
  C8, as the claim states it, fails. A server with \<^verbatim>\<open>retrans_time_init = 1000\<close> and
  \<^verbatim>\<open>retrans_duration_max = 1500\<close>: with the jitter value \<open>0x81\<close> (divisor 1, negated)
  \<^verbatim>\<open>radius_client_send_new\<close> arms the first interval with 2000 ms, and when it has been
  waited the handler's \<^verbatim>\<open>retrans_duration\<close> is 2000, above the maximum.
\<close>

theorem first_interval_exceeds_duration_max:
  "retrans_duration_max ((srv_s (ex_srv 1))
       \<lparr>retrans_time_init := 1000, retrans_duration_max := 1500, retrans_count_max := 0\<rparr>) \<noteq> 0
   \<and> send_new_retrans_time ((srv_s (ex_srv 1))
       \<lparr>retrans_time_init := 1000, retrans_duration_max := 1500, retrans_count_max := 0\<rparr>)
       0x81 0 = 2000
   \<and> retrans_duration (fst (timeout_retrans ((srv_s (ex_srv 1))
       \<lparr>retrans_time_init := 1000, retrans_duration_max := 1500, retrans_count_max := 0\<rparr>) 0 0
       ((ex_q (ex_buf 0x40 1))\<lparr>retrans_time := 2000, retrans_duration := 0\<rparr>))) = 2000
   \<and> uint (1500 :: 64 word) < uint (2000 :: 64 word)"
  by (simp add: ex_srv_def ex_q_def send_new_retrans_time_def radius_client_rnd_factor_def
      rnd_factor_tm_def timeout_retrans_def Let_def)

text \<open>
  C8, amended. For a query whose server has \<^verbatim>\<open>retrans_duration_max\<close> set (not zero, and
  below \<open>2^61\<close> ms, so that no sum of the handler wraps around) and whose armed interval
  fits the budget (for the first interval: the one \<^verbatim>\<open>radius_client_send_new\<close> chose does
  not exceed the maximum), the time waited never exceeds \<^verbatim>\<open>retrans_duration_max\<close>, over
  any number of timer expiries and any jitter values. In each run of the handler the
  time waited grows by exactly the interval that expired, a resend keeps the budget,
  and when waited time plus next interval would reach the maximum the handler sets the
  interval to the remaining budget and gives up on this server if that remainder is
  below \<^verbatim>\<open>retrans_time_init\<close>.
\<close>

theorem duration_cap_after_first_interval:
  assumes "retrans_duration_max s \<noteq> 0" and "uint (retrans_duration_max s) < 2 ^ 61"
    and "within_budget s q"
  shows "uint (retrans_duration (timeouts_run s ks q)) \<le> uint (retrans_duration_max s)
    \<and> (\<forall>k1 k2 q' resend. timeout_retrans s k1 k2 q = (q', resend) \<longrightarrow>
          uint (retrans_duration q') = uint (retrans_duration q) + uint (retrans_time q)
          \<and> uint (retrans_duration q') \<le> uint (retrans_duration_max s)
          \<and> (resend \<longrightarrow> within_budget s q')
          \<and> (\<not> (retrans_count_max s \<noteq> 0 \<and> retrans_count_max s \<le> retrans_count q + 1)
               \<and> retrans_duration q + retrans_time q < retrans_duration_max s
               \<and> retrans_duration_max s
                    \<le> retrans_duration q + retrans_time q + next_interval s k1 k2 (retrans_time q)
             \<longrightarrow> retrans_time q' = retrans_duration_max s - (retrans_duration q + retrans_time q)
                 \<and> (resend \<longleftrightarrow> \<not> retrans_time q' < retrans_time_init s)))"
  using timeouts_run_budget [OF assms] timeout_retrans_budget [OF assms]
    timeout_retrans_clamp [of s _ _ q, OF _ _ assms(1)]
  by blast

theorem duration_cap_after_first_interval_witness:
  "within_budget ((srv_s (ex_srv 1))\<lparr>retrans_duration_max := 1000, retrans_count_max := 0\<rparr>)
     ((ex_q (ex_buf 0x40 1))\<lparr>retrans_time := 249\<rparr>)
   \<and> retrans_duration (timeouts_run
        ((srv_s (ex_srv 1))\<lparr>retrans_duration_max := 1000, retrans_count_max := 0\<rparr>)
        [(0x7f, 0x7f), (0x7f, 0x7f), (0x7f, 0x7f), (0x7f, 0x7f)]
        ((ex_q (ex_buf 0x40 1))\<lparr>retrans_time := 249\<rparr>)) = 1000
   \<and> uint (retrans_duration (timeouts_run
        ((srv_s (ex_srv 1))\<lparr>retrans_duration_max := 1000, retrans_count_max := 0\<rparr>)
        [(0x7f, 0x7f), (0x7f, 0x7f), (0x7f, 0x7f), (0x7f, 0x7f)]
        ((ex_q (ex_buf 0x40 1))\<lparr>retrans_time := 249\<rparr>))) \<le> 1000"
proof -
  let ?s = "(srv_s (ex_srv 1))\<lparr>retrans_duration_max := 1000, retrans_count_max := 0\<rparr>"
  let ?q = "(ex_q (ex_buf 0x40 1))\<lparr>retrans_time := 249\<rparr>"
  have h1: "retrans_duration_max ?s \<noteq> 0" by (simp add: ex_srv_def)
  have h2: "uint (retrans_duration_max ?s) < 2 ^ 61" by (simp add: ex_srv_def)
  have h3: "within_budget ?s ?q" by (simp add: within_budget_def ex_srv_def ex_q_def)
  have v: "retrans_duration (timeouts_run ?s [(0x7f, 0x7f), (0x7f, 0x7f), (0x7f, 0x7f), (0x7f, 0x7f)] ?q)
      = 1000"
    by (simp add: ex_srv_def ex_q_def timeout_retrans_def next_interval_def
        radius_client_rnd_factor_def rnd_factor_tm_def Let_def)
  show ?thesis
    using h3 v duration_cap_after_first_interval [OF h1 h2 h3,
      of "[(0x7f, 0x7f), (0x7f, 0x7f), (0x7f, 0x7f), (0x7f, 0x7f)]"]
    by (simp add: ex_srv_def)
qed

subsection \<open>The slot invariant\<close>

lemma deref_iff: "deref h p = Inr v \<longleftrightarrow> p < length h \<and> h ! p = Some v"
  by (auto simp: deref_def split: option.splits)

lemma deref_cases: "deref h p = Inl BadPointer \<or> (\<exists>v. deref h p = Inr v)"
  by (auto simp: deref_def split: option.splits)

lemma deref_Inl_iff: "(\<exists>f. deref h p = Inl f) \<longleftrightarrow> \<not> (\<exists>v. deref h p = Inr v)"
  by (auto simp: deref_def split: option.splits)

lemma deref_out: "length h \<le> p \<Longrightarrow> deref h p = Inl BadPointer"
  by (simp add: deref_def)

lemma query_linked_iff:
  "query_linked st qp \<longleftrightarrow>
     (\<forall>q sp. deref (queries st) qp = Inr q \<longrightarrow> q_skt q = Some sp \<longrightarrow>
        (\<exists>sk. deref (sockets st) sp = Inr sk \<and> query_id q < length (queries_tmr sk)
              \<and> ident (queries_tmr sk ! query_id q) = Some qp))"
  unfolding query_linked_def
  by (cases "deref (queries st) qp"; cases "deref (sockets st) (the (q_skt (projr (deref (queries st) qp))))")
     (auto split: option.splits)

lemma slot_linked_iff:
  "slot_linked st sp i \<longleftrightarrow>
     (\<forall>sk qp. deref (sockets st) sp = Inr sk \<longrightarrow> ident (queries_tmr sk ! i) = Some qp \<longrightarrow>
        (\<exists>q. deref (queries st) qp = Inr q \<and> q_skt q = Some sp \<and> query_id q = i))"
  unfolding slot_linked_def
  by (cases "deref (sockets st) sp";
      cases "deref (queries st) (the (ident (queries_tmr (projr (deref (sockets st) sp)) ! i)))")
     (auto split: option.splits)

lemma skt_counted_iff:
  "skt_counted st sp \<longleftrightarrow>
     (\<forall>sk. deref (sockets st) sp = Inr sk \<longrightarrow>
        length (queries_tmr sk) = 256 \<and> skt_queries_index sk \<le> 256
        \<and> skt_queries_count sk = occupied sk
        \<and> (\<exists>pid. skt_skts sk = Some pid \<and> Some sp \<in> set (plist (get_skts st) pid)))"
  unfolding skt_counted_def
  by (cases "deref (sockets st) sp")
     (auto simp: RADIUS_PKT_HDR_ID_MAX_COUNT_def skts_list_def plist_def
           split: option.splits)

lemma skt_occupied_occ: "skt_occupied st = occ (sockets st)"
  by (rule ext) (simp add: skt_occupied_def occ_def)

lemma skts_counted_iff:
  "skts_counted st pid \<longleftrightarrow>
     (skt_count (get_skts st pid) \<le> length (skts_skt (get_skts st pid))
       \<and> thr_sockets_max st \<le> length (skts_skt (get_skts st pid))
       \<and> distinct (plist (get_skts st) pid)
       \<and> (\<forall>x \<in> set (plist (get_skts st) pid). \<exists>sp sk. x = Some sp \<and> deref (sockets st) sp = Inr sk
             \<and> skt_skts sk = Some pid)
       \<and> skts_queries_count (get_skts st pid)
           = sum_list (map (occ (sockets st)) (plist (get_skts st) pid)))"
proof -
  have "(case x of None \<Rightarrow> False
          | Some sp \<Rightarrow> (case deref (sockets st) sp of Inl f \<Rightarrow> False
                        | Inr sk \<Rightarrow> skt_skts sk = Some pid))
        \<longleftrightarrow> (\<exists>sp sk. x = Some sp \<and> deref (sockets st) sp = Inr sk \<and> skt_skts sk = Some pid)"
    for x
    by (cases x) (auto split: sum.splits)
  then show ?thesis
    unfolding skts_counted_def skts_list_def plist_def skt_occupied_occ list_all_iff
    by simp
qed

lemma slot_inv_core: "slot_inv st \<longleftrightarrow> inv_core (view st)"
proof -
  have a: "list_all (query_linked st) [0..<length (queries st)] \<longleftrightarrow> I1 (view st)"
  proof -
    have "query_linked st qp" if "length (queries st) \<le> qp" for qp
      using that by (simp add: query_linked_iff deref_out)
    then have "(\<forall>qp \<in> set [0..<length (queries st)]. query_linked st qp) \<longleftrightarrow> (\<forall>qp. query_linked st qp)"
      by (metis atLeastLessThan_iff set_upt not_le zero_le)
    then show ?thesis
      unfolding list_all_iff I1_def view_def query_linked_iff by simp
  qed
  have b: "list_all (\<lambda>sp. skt_counted st sp
                      \<and> list_all (slot_linked st sp) [0..<RADIUS_PKT_HDR_ID_MAX_COUNT])
             [0..<length (sockets st)] \<longleftrightarrow> I2 (view st) \<and> I3 (view st)"
  proof -
    let ?P = "\<lambda>sp. skt_counted st sp \<and> (\<forall>i<256. slot_linked st sp i)"
    have "?P sp" if "length (sockets st) \<le> sp" for sp
      using that by (simp add: skt_counted_iff slot_linked_iff deref_out)
    then have "(\<forall>sp \<in> set [0..<length (sockets st)]. ?P sp) \<longleftrightarrow> (\<forall>sp. ?P sp)"
      by (metis atLeastLessThan_iff set_upt not_le zero_le)
    moreover have "(\<forall>sp. ?P sp) \<longleftrightarrow> I2 (view st) \<and> I3 (view st)"
      unfolding I2_def I3_def view_def skt_counted_iff slot_linked_iff by simp blast
    moreover have "(\<forall>x \<in> {0..<256::nat}. slot_linked st sp x) \<longleftrightarrow> (\<forall>i<256. slot_linked st sp i)" for sp
      by auto
    ultimately show ?thesis
      unfolding list_all_iff by (simp add: RADIUS_PKT_HDR_ID_MAX_COUNT_def)
  qed
  have c: "skts_counted st SKTS4 \<and> skts_counted st SKTS6 \<longleftrightarrow> I4 (view st)"
  proof -
    have "(\<forall>pid. skts_counted st pid) \<longleftrightarrow> skts_counted st SKTS4 \<and> skts_counted st SKTS6"
      by (metis pool_id.exhaust)
    then show ?thesis
      unfolding I4_def view_def skts_counted_iff by simp
  qed
  show ?thesis
    unfolding slot_inv_def inv_core_def using a b c by blast
qed

subsection \<open>Counting occupied slots\<close>

lemma filter_update_count:
  "i < length xs \<Longrightarrow>
   length (filter P (xs[i := y])) + (if P (xs ! i) then 1 else 0)
     = length (filter P xs) + (if P y then 1 else 0)"
proof (induction xs arbitrary: i)
  case Nil
  then show ?case by simp
next
  case (Cons x xs)
  then show ?case by (cases i) auto
qed

lemma occupied_update:
  assumes "i < length (queries_tmr sk)" "queries_tmr sk' = (queries_tmr sk)[i := u]"
  shows "occupied sk' + (if ident (queries_tmr sk ! i) \<noteq> None then 1 else 0)
           = occupied sk + (if ident u \<noteq> None then 1 else 0)"
  unfolding occupied_def assms(2)
  using filter_update_count [OF assms(1), of "\<lambda>u. ident u \<noteq> None" u] by simp

lemma occupied_same_idents:
  "map ident (queries_tmr sk') = map ident (queries_tmr sk) \<Longrightarrow> occupied sk' = occupied sk"
proof -
  assume "map ident (queries_tmr sk') = map ident (queries_tmr sk)"
  then have "length (filter (\<lambda>x. x \<noteq> None) (map ident (queries_tmr sk')))
           = length (filter (\<lambda>x. x \<noteq> None) (map ident (queries_tmr sk)))"
    by simp
  then show ?thesis
    by (simp add: occupied_def filter_map o_def)
qed

lemma occupied_zero_iff: "occupied sk = 0 \<longleftrightarrow> (\<forall>u \<in> set (queries_tmr sk). ident u = None)"
  by (auto simp: occupied_def filter_empty_conv)

lemma sum_list_change_one:
  fixes f g :: "'a \<Rightarrow> nat"
  assumes "x \<in> set xs" "distinct xs" "\<And>y. y \<in> set xs \<Longrightarrow> y \<noteq> x \<Longrightarrow> g y = f y"
  shows "sum_list (map g xs) + f x = sum_list (map f xs) + g x"
  using assms
proof (induction xs)
  case Nil
  then show ?case by simp
next
  case (Cons a xs)
  show ?case
  proof (cases "a = x")
    case True
    then have "x \<notin> set xs" using Cons.prems(2) by simp
    then have "map g xs = map f xs"
      using Cons.prems(3) by (intro map_cong) auto
    then have "sum_list (map g xs) = sum_list (map f xs)"
      by (rule arg_cong)
    then show ?thesis using True by simp
  next
    case False
    then have "x \<in> set xs" using Cons.prems(1) by simp
    moreover have "distinct xs" using Cons.prems(2) by simp
    ultimately have "sum_list (map g xs) + f x = sum_list (map f xs) + g x"
      using Cons.IH Cons.prems(3) by simp
    moreover have "g a = f a" using Cons.prems(3) False by simp
    ultimately show ?thesis by simp
  qed
qed

lemma sum_list_same:
  fixes f g :: "'a \<Rightarrow> nat"
  shows "(\<And>y. y \<in> set xs \<Longrightarrow> g y = f y) \<Longrightarrow> sum_list (map g xs) = sum_list (map f xs)"
  by (simp cong: map_cong)

lemma occ_le_sum: "x \<in> set xs \<Longrightarrow> occ ss x \<le> sum_list (map (occ ss) xs)"
  by (induction xs) auto

lemma view_simps [simp]:
  "view (set_skts pid p st) = (queries st, sockets st, (get_skts st)(pid := p), thr_sockets_max st)"
  "view (tick st) = view st"
  by (auto simp: view_def set_skts_def get_skts_def tick_def fun_eq_iff split: pool_id.splits)

lemma view_upd [simp]:
  "view (st\<lparr>queries := a\<rparr>) = (a, sockets st, get_skts st, thr_sockets_max st)"
  "view (st\<lparr>sockets := b\<rparr>) = (queries st, b, get_skts st, thr_sockets_max st)"
  "view (st\<lparr>now := n\<rparr>) = view st"
  "view (st\<lparr>wire := w\<rparr>) = view st"
  "view (st\<lparr>tpt_msgs := ms\<rparr>) = view st"
  "view (st\<lparr>cb_log := l\<rparr>) = view st"
  by (simp_all add: view_def get_skts_def fun_eq_iff split: pool_id.splits)

subsection \<open>Elementary updates keep the invariant\<close>

lemma I1_D:
  "I1 (qs, ss, pl, m) \<Longrightarrow> deref qs qp = Inr q \<Longrightarrow> q_skt q = Some sp \<Longrightarrow>
   \<exists>sk. deref ss sp = Inr sk \<and> query_id q < length (queries_tmr sk)
        \<and> ident (queries_tmr sk ! query_id q) = Some qp"
  unfolding I1_def by blast

lemma I2_D:
  "I2 (qs, ss, pl, m) \<Longrightarrow> deref ss sp = Inr sk \<Longrightarrow> i < 256 \<Longrightarrow> ident (queries_tmr sk ! i) = Some qp \<Longrightarrow>
   \<exists>q. deref qs qp = Inr q \<and> q_skt q = Some sp \<and> query_id q = i"
  unfolding I2_def by blast

lemma I3_D:
  "I3 (qs, ss, pl, m) \<Longrightarrow> deref ss sp = Inr sk \<Longrightarrow>
   length (queries_tmr sk) = 256 \<and> skt_queries_index sk \<le> 256
   \<and> skt_queries_count sk = occupied sk
   \<and> (\<exists>pid. skt_skts sk = Some pid \<and> Some sp \<in> set (plist pl pid))"
  unfolding I3_def by blast

lemma I4_D:
  "I4 (qs, ss, pl, m) \<Longrightarrow>
   skt_count (pl pid) \<le> length (skts_skt (pl pid))
   \<and> m \<le> length (skts_skt (pl pid))
   \<and> distinct (plist pl pid)
   \<and> (\<forall>x \<in> set (plist pl pid). \<exists>sp sk. x = Some sp \<and> deref ss sp = Inr sk \<and> skt_skts sk = Some pid)
   \<and> skts_queries_count (pl pid) = sum_list (map (occ ss) (plist pl pid))"
  unfolding I4_def by blast

lemma I1_I:
  "(\<And>qp q sp. deref qs qp = Inr q \<Longrightarrow> q_skt q = Some sp \<Longrightarrow>
      \<exists>sk. deref ss sp = Inr sk \<and> query_id q < length (queries_tmr sk)
           \<and> ident (queries_tmr sk ! query_id q) = Some qp) \<Longrightarrow> I1 (qs, ss, pl, m)"
  unfolding I1_def by blast

lemma I2_I:
  "(\<And>sp sk i qp. deref ss sp = Inr sk \<Longrightarrow> i < 256 \<Longrightarrow> ident (queries_tmr sk ! i) = Some qp \<Longrightarrow>
      \<exists>q. deref qs qp = Inr q \<and> q_skt q = Some sp \<and> query_id q = i) \<Longrightarrow> I2 (qs, ss, pl, m)"
  unfolding I2_def by blast

lemma I3_I:
  "(\<And>sp sk. deref ss sp = Inr sk \<Longrightarrow>
      length (queries_tmr sk) = 256 \<and> skt_queries_index sk \<le> 256
      \<and> skt_queries_count sk = occupied sk
      \<and> (\<exists>pid. skt_skts sk = Some pid \<and> Some sp \<in> set (plist pl pid))) \<Longrightarrow> I3 (qs, ss, pl, m)"
  unfolding I3_def by blast

lemma I4_I:
  "(\<And>pid. skt_count (pl pid) \<le> length (skts_skt (pl pid))
      \<and> m \<le> length (skts_skt (pl pid))
      \<and> distinct (plist pl pid)
      \<and> (\<forall>x \<in> set (plist pl pid). \<exists>sp sk. x = Some sp \<and> deref ss sp = Inr sk \<and> skt_skts sk = Some pid)
      \<and> skts_queries_count (pl pid) = sum_list (map (occ ss) (plist pl pid))) \<Longrightarrow> I4 (qs, ss, pl, m)"
  unfolding I4_def by blast

lemma occupied_pos: "i < length (queries_tmr sk) \<Longrightarrow> ident (queries_tmr sk ! i) = Some qp \<Longrightarrow> 0 < occupied sk"
  using nth_mem [of i "queries_tmr sk"] by (auto simp: occupied_def filter_empty_conv)

lemma occupied_upd [simp]:
  "occupied (sk\<lparr>skt_queries_count := c\<rparr>) = occupied sk"
  "occupied (sk\<lparr>skt_queries_index := j\<rparr>) = occupied sk"
  "occupied (sk\<lparr>skt_skts := x\<rparr>) = occupied sk"
  "occupied (sk\<lparr>skt_buf := b\<rparr>) = occupied sk"
  by (simp_all add: occupied_def)

lemma plist_upd_counter [simp]:
  "plist (pl(pid := (pl pid)\<lparr>skts_queries_count := c\<rparr>)) pid' = plist pl pid'"
  by (simp add: plist_def)

lemma occ_Some: "deref ss sp = Inr sk \<Longrightarrow> occ ss (Some sp) = occupied sk"
  by (simp add: occ_def)

lemma occ_store_other: "x \<noteq> Some sp \<Longrightarrow> occ (store ss sp sk) x = occ ss x"
  by (cases x) (auto simp: occ_def)

lemma inv_detach:
  assumes inv: "inv_core (qs, ss, pl, m)"
    and q: "deref qs qp = Inr q" "q_skt q = Some sp"
    and sk: "deref ss sp = Inr sk" "skt_skts sk = Some pid"
  defines "sk1 \<equiv> sk\<lparr>queries_tmr := (queries_tmr sk)[query_id q := empty_udata],
                     skt_queries_count := size_t_dec (skt_queries_count sk)\<rparr>"
  shows "inv_core (store qs qp (q\<lparr>q_skt := None\<rparr>), store ss sp sk1,
                   pl(pid := (pl pid)\<lparr>skts_queries_count := size_t_dec (skts_queries_count (pl pid))\<rparr>), m)"
proof -
  let ?i = "query_id q"
  from inv have i1: "I1 (qs, ss, pl, m)" and i2: "I2 (qs, ss, pl, m)"
    and i3: "I3 (qs, ss, pl, m)" and i4: "I4 (qs, ss, pl, m)"
    by (simp_all add: inv_core_def)
  from I1_D [OF i1 q] sk(1)
  have slot: "?i < length (queries_tmr sk)" "ident (queries_tmr sk ! ?i) = Some qp"
    by auto
  from I3_D [OF i3 sk(1)] sk(2)
  have shape: "length (queries_tmr sk) = 256" "skt_queries_index sk \<le> 256"
    "skt_queries_count sk = occupied sk" "Some sp \<in> set (plist pl pid)"
    by auto
  have pos: "0 < occupied sk" by (rule occupied_pos [OF slot])
  have occ1: "occupied sk1 + 1 = occupied sk"
    using occupied_update [OF slot(1), of sk1 empty_udata] slot(2)
    by (simp add: sk1_def empty_udata_def)
  have cnt1: "skt_queries_count sk1 = occupied sk1"
    using pos occ1 shape(3) by (simp add: sk1_def size_t_dec_def)
  have qlen: "qp < length qs" and slen: "sp < length ss"
    using q(1) sk(1) by (auto dest: deref_Inr_length)
  let ?qs = "store qs qp (q\<lparr>q_skt := None\<rparr>)" and ?ss = "store ss sp sk1"
  let ?pl = "pl(pid := (pl pid)\<lparr>skts_queries_count := size_t_dec (skts_queries_count (pl pid))\<rparr>)"
  have I1': "I1 (?qs, ?ss, ?pl, m)"
  proof (rule I1_I)
    fix qp' q' sp'
    assume a: "deref ?qs qp' = Inr q'" "q_skt q' = Some sp'"
    then have ne: "qp' \<noteq> qp" and a1: "deref qs qp' = Inr q'"
      by (auto simp: qlen split: if_splits)
    from I1_D [OF i1 a1 a(2)] obtain sk' where
      b: "deref ss sp' = Inr sk'" "query_id q' < length (queries_tmr sk')"
         "ident (queries_tmr sk' ! query_id q') = Some qp'"
      by blast
    show "\<exists>sk. deref ?ss sp' = Inr sk \<and> query_id q' < length (queries_tmr sk)
            \<and> ident (queries_tmr sk ! query_id q') = Some qp'"
    proof (cases "sp' = sp")
      case True
      then have "sk' = sk" using b(1) sk(1) by simp
      then have "query_id q' \<noteq> ?i" using b(3) slot(2) ne by auto
      then show ?thesis
        using True b \<open>sk' = sk\<close> by (simp add: slen sk1_def)
    next
      case False
      then show ?thesis using b by simp
    qed
  qed
  have I2': "I2 (?qs, ?ss, ?pl, m)"
  proof (rule I2_I)
    fix sp' sk' i qp'
    assume a: "deref ?ss sp' = Inr sk'" "i < (256::nat)" "ident (queries_tmr sk' ! i) = Some qp'"
    have "\<exists>sk0. deref ss sp' = Inr sk0 \<and> ident (queries_tmr sk0 ! i) = Some qp' \<and> (sp' = sp \<longrightarrow> i \<noteq> ?i)"
    proof (cases "sp' = sp")
      case True
      then have "sk' = sk1" using a(1) by (simp add: slen)
      then have "i \<noteq> ?i" using a(3) slot(1) by (auto simp: sk1_def empty_udata_def)
      then show ?thesis using True a(3) sk(1) \<open>sk' = sk1\<close> by (simp add: sk1_def)
    next
      case False
      then show ?thesis using a by simp
    qed
    then obtain sk0 where b: "deref ss sp' = Inr sk0" "ident (queries_tmr sk0 ! i) = Some qp'"
      "sp' = sp \<longrightarrow> i \<noteq> ?i"
      by blast
    from I2_D [OF i2 b(1) a(2) b(2)] obtain q' where
      c: "deref qs qp' = Inr q'" "q_skt q' = Some sp'" "query_id q' = i"
      by blast
    have "qp' \<noteq> qp" using c q b(3) by auto
    then show "\<exists>q. deref ?qs qp' = Inr q \<and> q_skt q = Some sp' \<and> query_id q = i"
      using c by simp
  qed
  have I3': "I3 (?qs, ?ss, ?pl, m)"
  proof (rule I3_I)
    fix sp' sk'
    assume a: "deref ?ss sp' = Inr sk'"
    show "length (queries_tmr sk') = 256 \<and> skt_queries_index sk' \<le> 256
          \<and> skt_queries_count sk' = occupied sk'
          \<and> (\<exists>pid'. skt_skts sk' = Some pid' \<and> Some sp' \<in> set (plist ?pl pid'))"
    proof (cases "sp' = sp")
      case True
      then have "sk' = sk1" using a by (simp add: slen)
      then show ?thesis
        using True shape cnt1 sk(2) by (simp add: sk1_def)
    next
      case False
      then have "deref ss sp' = Inr sk'" using a by simp
      from I3_D [OF i3 this] show ?thesis by simp
    qed
  qed
  have I4': "I4 (?qs, ?ss, ?pl, m)"
  proof (rule I4_I)
    fix pid'
    note d = I4_D [OF i4, of pid']
    have fields: "skt_count (?pl pid') = skt_count (pl pid')" "skts_skt (?pl pid') = skts_skt (pl pid')"
      by simp_all
    have live: "\<forall>x \<in> set (plist pl pid'). \<exists>sp' sk'. x = Some sp' \<and> deref ?ss sp' = Inr sk'
                  \<and> skt_skts sk' = Some pid'"
    proof
      fix x assume "x \<in> set (plist pl pid')"
      with d obtain sp' sk' where x: "x = Some sp'" "deref ss sp' = Inr sk'" "skt_skts sk' = Some pid'"
        by blast
      show "\<exists>sp' sk'. x = Some sp' \<and> deref ?ss sp' = Inr sk' \<and> skt_skts sk' = Some pid'"
      proof (cases "sp' = sp")
        case True
        then show ?thesis using x sk by (simp add: slen sk1_def)
      next
        case False
        then show ?thesis using x by simp
      qed
    qed
    have sum: "skts_queries_count (?pl pid') = sum_list (map (occ ?ss) (plist pl pid'))"
    proof (cases "pid' = pid")
      case True
      have "sum_list (map (occ ?ss) (plist pl pid)) + occ ss (Some sp)
            = sum_list (map (occ ss) (plist pl pid)) + occ ?ss (Some sp)"
        using shape(4) d True by (intro sum_list_change_one) (auto simp: occ_store_other)
      moreover have "occ ss (Some sp) = occupied sk" "occ ?ss (Some sp) = occupied sk1"
        using sk(1) by (simp_all add: occ_def slen)
      ultimately have "sum_list (map (occ ?ss) (plist pl pid)) + 1 = sum_list (map (occ ss) (plist pl pid))"
        using occ1 by simp
      then have "skts_queries_count (pl pid) = Suc (sum_list (map (occ ?ss) (plist pl pid)))"
        using d True by simp
      then show ?thesis
        using True by (simp add: size_t_dec_def)
    next
      case False
      have "Some sp \<notin> set (plist pl pid')"
      proof
        assume "Some sp \<in> set (plist pl pid')"
        with d obtain sk' where "deref ss sp = Inr sk'" "skt_skts sk' = Some pid'" by blast
        then show False using sk False by simp
      qed
      then have "y \<noteq> Some sp" if "y \<in> set (plist pl pid')" for y
        using that by auto
      then have "sum_list (map (occ ?ss) (plist pl pid')) = sum_list (map (occ ss) (plist pl pid'))"
        by (intro sum_list_same occ_store_other)
      then show ?thesis using False d by simp
    qed
    show "skt_count (?pl pid') \<le> length (skts_skt (?pl pid'))
      \<and> m \<le> length (skts_skt (?pl pid'))
      \<and> distinct (plist ?pl pid')
      \<and> (\<forall>x \<in> set (plist ?pl pid'). \<exists>sp sk. x = Some sp \<and> deref ?ss sp = Inr sk \<and> skt_skts sk = Some pid')
      \<and> skts_queries_count (?pl pid') = sum_list (map (occ ?ss) (plist ?pl pid'))"
      unfolding plist_upd_counter fields using d live sum by blast
  qed
  show ?thesis
    unfolding inv_core_def using I1' I2' I3' I4' by simp
qed

lemma inv_query_store:
  assumes inv: "inv_core (qs, ss, pl, m)"
    and q: "deref qs qp = Inr q" "q_skt q' = q_skt q" "query_id q' = query_id q"
  shows "inv_core (store qs qp q', ss, pl, m)"
proof -
  from inv have i1: "I1 (qs, ss, pl, m)" and i2: "I2 (qs, ss, pl, m)"
    and i3: "I3 (qs, ss, pl, m)" and i4: "I4 (qs, ss, pl, m)"
    by (simp_all add: inv_core_def)
  have qlen: "qp < length qs" using q(1) by (rule deref_Inr_length)
  have "I1 (store qs qp q', ss, pl, m)"
  proof (rule I1_I)
    fix qp' q0 sp'
    assume a: "deref (store qs qp q') qp' = Inr q0" "q_skt q0 = Some sp'"
    show "\<exists>sk. deref ss sp' = Inr sk \<and> query_id q0 < length (queries_tmr sk)
            \<and> ident (queries_tmr sk ! query_id q0) = Some qp'"
    proof (cases "qp' = qp")
      case True
      then have "q0 = q'" using a(1) qlen by simp
      then show ?thesis using I1_D [OF i1 q(1), of sp'] a(2) q(2,3) True by simp
    next
      case False
      then show ?thesis using I1_D [OF i1 _ a(2), of qp'] a(1) by simp
    qed
  qed
  moreover have "I2 (store qs qp q', ss, pl, m)"
  proof (rule I2_I)
    fix sp' sk' i qp'
    assume a: "deref ss sp' = Inr sk'" "i < (256::nat)" "ident (queries_tmr sk' ! i) = Some qp'"
    from I2_D [OF i2 a] obtain q0 where
      c: "deref qs qp' = Inr q0" "q_skt q0 = Some sp'" "query_id q0 = i"
      by blast
    show "\<exists>q. deref (store qs qp q') qp' = Inr q \<and> q_skt q = Some sp' \<and> query_id q = i"
      using c q qlen by (cases "qp' = qp") simp_all
  qed
  moreover have "I3 (store qs qp q', ss, pl, m)"
    using i3 by (simp add: I3_def)
  moreover have "I4 (store qs qp q', ss, pl, m)"
    using i4 by (simp add: I4_def)
  ultimately show ?thesis by (simp add: inv_core_def)
qed

lemma inv_query_release:
  assumes inv: "inv_core (qs, ss, pl, m)"
    and q: "\<And>q. deref qs qp = Inr q \<Longrightarrow> q_skt q = None"
  shows "inv_core (release qs qp, ss, pl, m)"
proof -
  from inv have i1: "I1 (qs, ss, pl, m)" and i2: "I2 (qs, ss, pl, m)"
    and i3: "I3 (qs, ss, pl, m)" and i4: "I4 (qs, ss, pl, m)"
    by (simp_all add: inv_core_def)
  have "I1 (release qs qp, ss, pl, m)"
  proof (rule I1_I)
    fix qp' q0 sp'
    assume a: "deref (release qs qp) qp' = Inr q0" "q_skt q0 = Some sp'"
    then have "deref qs qp' = Inr q0" by (simp split: if_splits)
    from I1_D [OF i1 this a(2)]
    show "\<exists>sk. deref ss sp' = Inr sk \<and> query_id q0 < length (queries_tmr sk)
            \<and> ident (queries_tmr sk ! query_id q0) = Some qp'" .
  qed
  moreover have "I2 (release qs qp, ss, pl, m)"
  proof (rule I2_I)
    fix sp' sk' i qp'
    assume a: "deref ss sp' = Inr sk'" "i < (256::nat)" "ident (queries_tmr sk' ! i) = Some qp'"
    from I2_D [OF i2 a] obtain q0 where
      c: "deref qs qp' = Inr q0" "q_skt q0 = Some sp'" "query_id q0 = i"
      by blast
    then have "qp' \<noteq> qp" using q by auto
    then show "\<exists>q. deref (release qs qp) qp' = Inr q \<and> q_skt q = Some sp' \<and> query_id q = i"
      using c by simp
  qed
  moreover have "I3 (release qs qp, ss, pl, m)"
    using i3 by (simp add: I3_def)
  moreover have "I4 (release qs qp, ss, pl, m)"
    using i4 by (simp add: I4_def)
  ultimately show ?thesis by (simp add: inv_core_def)
qed

lemma occ_store_same: "deref ss sp = Inr sk \<Longrightarrow> occupied sk' = occupied sk \<Longrightarrow> occ (store ss sp sk') = occ ss"
proof (rule ext)
  fix x
  assume a: "deref ss sp = Inr sk" "occupied sk' = occupied sk"
  then have "sp < length ss" by (auto dest: deref_Inr_length)
  then show "occ (store ss sp sk') x = occ ss x"
    using a by (cases x) (auto simp: occ_def)
qed

lemma inv_skt_timer:
  assumes inv: "inv_core (qs, ss, pl, m)"
    and sk: "deref ss sp = Inr sk"
    and sk': "length (queries_tmr sk') = length (queries_tmr sk)"
      "\<And>i. i < length (queries_tmr sk) \<Longrightarrow> ident (queries_tmr sk' ! i) = ident (queries_tmr sk ! i)"
      "skt_queries_count sk' = skt_queries_count sk" "skt_queries_index sk' = skt_queries_index sk"
      "skt_skts sk' = skt_skts sk"
  shows "inv_core (qs, store ss sp sk', pl, m)"
proof -
  from inv have i1: "I1 (qs, ss, pl, m)" and i2: "I2 (qs, ss, pl, m)"
    and i3: "I3 (qs, ss, pl, m)" and i4: "I4 (qs, ss, pl, m)"
    by (simp_all add: inv_core_def)
  have slen: "sp < length ss" using sk by (rule deref_Inr_length)
  have "map ident (queries_tmr sk') = map ident (queries_tmr sk)"
    using sk'(1,2) by (intro nth_equalityI) simp_all
  then have occ_eq: "occupied sk' = occupied sk" by (rule occupied_same_idents)
  note shape = I3_D [OF i3 sk]
  have "I1 (qs, store ss sp sk', pl, m)"
  proof (rule I1_I)
    fix qp' q0 sp'
    assume a: "deref qs qp' = Inr q0" "q_skt q0 = Some sp'"
    from I1_D [OF i1 a] obtain sk0 where
      b: "deref ss sp' = Inr sk0" "query_id q0 < length (queries_tmr sk0)"
         "ident (queries_tmr sk0 ! query_id q0) = Some qp'"
      by blast
    show "\<exists>sk. deref (store ss sp sk') sp' = Inr sk \<and> query_id q0 < length (queries_tmr sk)
            \<and> ident (queries_tmr sk ! query_id q0) = Some qp'"
    proof (cases "sp' = sp")
      case True
      then have "sk0 = sk" using b(1) sk by simp
      then show ?thesis using True b sk' slen by simp
    next
      case False
      then show ?thesis using b by simp
    qed
  qed
  moreover have "I2 (qs, store ss sp sk', pl, m)"
  proof (rule I2_I)
    fix sp' sk0 i qp'
    assume a: "deref (store ss sp sk') sp' = Inr sk0" "i < (256::nat)"
      "ident (queries_tmr sk0 ! i) = Some qp'"
    show "\<exists>q. deref qs qp' = Inr q \<and> q_skt q = Some sp' \<and> query_id q = i"
    proof (cases "sp' = sp")
      case True
      then have "sk0 = sk'" using a(1) slen by simp
      then have "ident (queries_tmr sk ! i) = Some qp'"
        using a(2,3) sk'(2) [of i] shape by simp
      from I2_D [OF i2 sk a(2) this] show ?thesis using True by simp
    next
      case False
      then have "deref ss sp' = Inr sk0" using a(1) by simp
      from I2_D [OF i2 this a(2,3)] show ?thesis .
    qed
  qed
  moreover have "I3 (qs, store ss sp sk', pl, m)"
  proof (rule I3_I)
    fix sp' sk0
    assume a: "deref (store ss sp sk') sp' = Inr sk0"
    show "length (queries_tmr sk0) = 256 \<and> skt_queries_index sk0 \<le> 256
          \<and> skt_queries_count sk0 = occupied sk0
          \<and> (\<exists>pid'. skt_skts sk0 = Some pid' \<and> Some sp' \<in> set (plist pl pid'))"
    proof (cases "sp' = sp")
      case True
      then have "sk0 = sk'" using a slen by simp
      then show ?thesis using True shape sk' occ_eq by simp
    next
      case False
      then have "deref ss sp' = Inr sk0" using a by simp
      from I3_D [OF i3 this] show ?thesis .
    qed
  qed
  moreover have "I4 (qs, store ss sp sk', pl, m)"
  proof (rule I4_I)
    fix pid'
    note d = I4_D [OF i4, of pid']
    have "\<exists>sp0 sk0. x = Some sp0 \<and> deref (store ss sp sk') sp0 = Inr sk0 \<and> skt_skts sk0 = Some pid'"
      if "x \<in> set (plist pl pid')" for x
    proof -
      from d that obtain sp0 sk0 where
        x: "x = Some sp0" "deref ss sp0 = Inr sk0" "skt_skts sk0 = Some pid'"
        by blast
      show ?thesis using x sk sk'(5) slen by (cases "sp0 = sp") simp_all
    qed
    then show "skt_count (pl pid') \<le> length (skts_skt (pl pid'))
      \<and> m \<le> length (skts_skt (pl pid'))
      \<and> distinct (plist pl pid')
      \<and> (\<forall>x \<in> set (plist pl pid'). \<exists>sp0 sk0. x = Some sp0 \<and> deref (store ss sp sk') sp0 = Inr sk0
             \<and> skt_skts sk0 = Some pid')
      \<and> skts_queries_count (pl pid') = sum_list (map (occ (store ss sp sk')) (plist pl pid'))"
      unfolding occ_store_same [OF sk occ_eq] using d by blast
  qed
  ultimately show ?thesis by (simp add: inv_core_def)
qed

lemma inv_attach:
  assumes inv: "inv_core (qs, ss, pl, m)"
    and q: "deref qs qp = Inr q" "q_skt q = None"
    and sk: "deref ss sp = Inr sk" "skt_skts sk = Some pid"
    and free: "j < 256" "ident (queries_tmr sk ! j) = None"
    and q': "q_skt q' = Some sp" "query_id q' = j"
    and sk': "queries_tmr sk' = (queries_tmr sk)[j := u]" "ident u = Some qp"
      "skt_queries_count sk' = skt_queries_count sk + 1" "skt_queries_index sk' \<le> 256"
      "skt_skts sk' = skt_skts sk"
  shows "inv_core (store qs qp q', store ss sp sk',
                   pl(pid := (pl pid)\<lparr>skts_queries_count := skts_queries_count (pl pid) + 1\<rparr>), m)"
proof -
  from inv have i1: "I1 (qs, ss, pl, m)" and i2: "I2 (qs, ss, pl, m)"
    and i3: "I3 (qs, ss, pl, m)" and i4: "I4 (qs, ss, pl, m)"
    by (simp_all add: inv_core_def)
  from I3_D [OF i3 sk(1)] sk(2)
  have shape: "length (queries_tmr sk) = 256" "skt_queries_count sk = occupied sk"
    "Some sp \<in> set (plist pl pid)"
    by auto
  have jlen: "j < length (queries_tmr sk)" using free(1) shape(1) by simp
  have occ1: "occupied sk' = occupied sk + 1"
    using occupied_update [OF jlen sk'(1)] free(2) sk'(2) by simp
  have qlen: "qp < length qs" and slen: "sp < length ss"
    using q(1) sk(1) by (auto dest: deref_Inr_length)
  let ?qs = "store qs qp q'" and ?ss = "store ss sp sk'"
  let ?pl = "pl(pid := (pl pid)\<lparr>skts_queries_count := skts_queries_count (pl pid) + 1\<rparr>)"
  have I1': "I1 (?qs, ?ss, ?pl, m)"
  proof (rule I1_I)
    fix qp' q0 sp'
    assume a: "deref ?qs qp' = Inr q0" "q_skt q0 = Some sp'"
    show "\<exists>sk. deref ?ss sp' = Inr sk \<and> query_id q0 < length (queries_tmr sk)
            \<and> ident (queries_tmr sk ! query_id q0) = Some qp'"
    proof (cases "qp' = qp")
      case True
      then have "q0 = q'" using a(1) qlen by simp
      then have "sp' = sp" "query_id q0 = j" using a(2) q' by simp_all
      then show ?thesis using True sk' jlen slen by simp
    next
      case False
      then have a1: "deref qs qp' = Inr q0" using a(1) by simp
      from I1_D [OF i1 a1 a(2)] obtain sk0 where
        b: "deref ss sp' = Inr sk0" "query_id q0 < length (queries_tmr sk0)"
           "ident (queries_tmr sk0 ! query_id q0) = Some qp'"
        by blast
      show ?thesis
      proof (cases "sp' = sp")
        case True
        then have "sk0 = sk" using b(1) sk(1) by simp
        then have "query_id q0 \<noteq> j" using b(3) free(2) by auto
        then show ?thesis using True b \<open>sk0 = sk\<close> sk'(1) slen by simp
      next
        case False
        then show ?thesis using b by simp
      qed
    qed
  qed
  have I2': "I2 (?qs, ?ss, ?pl, m)"
  proof (rule I2_I)
    fix sp' sk0 i qp'
    assume a: "deref ?ss sp' = Inr sk0" "i < (256::nat)" "ident (queries_tmr sk0 ! i) = Some qp'"
    show "\<exists>q. deref ?qs qp' = Inr q \<and> q_skt q = Some sp' \<and> query_id q = i"
    proof (cases "sp' = sp \<and> i = j")
      case True
      then have "sk0 = sk'" using a(1) slen by simp
      then have "qp' = qp" using a(3) True sk' jlen by simp
      then show ?thesis using True q' qlen by simp
    next
      case False
      have "\<exists>sk1. deref ss sp' = Inr sk1 \<and> ident (queries_tmr sk1 ! i) = Some qp'"
      proof (cases "sp' = sp")
        case True
        then have "sk0 = sk'" "i \<noteq> j" using a(1) slen False by simp_all
        then show ?thesis using True a(3) sk(1) sk'(1) by simp
      next
        case False
        then show ?thesis using a by simp
      qed
      then obtain sk1 where b: "deref ss sp' = Inr sk1" "ident (queries_tmr sk1 ! i) = Some qp'"
        by blast
      from I2_D [OF i2 b(1) a(2) b(2)] obtain q0 where
        c: "deref qs qp' = Inr q0" "q_skt q0 = Some sp'" "query_id q0 = i"
        by blast
      have "qp' \<noteq> qp" using c q by auto
      then show ?thesis using c by simp
    qed
  qed
  have I3': "I3 (?qs, ?ss, ?pl, m)"
  proof (rule I3_I)
    fix sp' sk0
    assume a: "deref ?ss sp' = Inr sk0"
    show "length (queries_tmr sk0) = 256 \<and> skt_queries_index sk0 \<le> 256
          \<and> skt_queries_count sk0 = occupied sk0
          \<and> (\<exists>pid'. skt_skts sk0 = Some pid' \<and> Some sp' \<in> set (plist ?pl pid'))"
    proof (cases "sp' = sp")
      case True
      then have "sk0 = sk'" using a by (simp add: slen)
      then show ?thesis
        using True shape occ1 sk(2) sk' by simp
    next
      case False
      then have "deref ss sp' = Inr sk0" using a by simp
      from I3_D [OF i3 this] show ?thesis by simp
    qed
  qed
  have I4': "I4 (?qs, ?ss, ?pl, m)"
  proof (rule I4_I)
    fix pid'
    note d = I4_D [OF i4, of pid']
    have fields: "skt_count (?pl pid') = skt_count (pl pid')" "skts_skt (?pl pid') = skts_skt (pl pid')"
      by simp_all
    have live: "\<forall>x \<in> set (plist pl pid'). \<exists>sp' sk0. x = Some sp' \<and> deref ?ss sp' = Inr sk0
                  \<and> skt_skts sk0 = Some pid'"
    proof
      fix x assume "x \<in> set (plist pl pid')"
      with d obtain sp' sk0 where x: "x = Some sp'" "deref ss sp' = Inr sk0" "skt_skts sk0 = Some pid'"
        by blast
      show "\<exists>sp' sk0. x = Some sp' \<and> deref ?ss sp' = Inr sk0 \<and> skt_skts sk0 = Some pid'"
        using x sk sk'(5) slen by (cases "sp' = sp") simp_all
    qed
    have sum: "skts_queries_count (?pl pid') = sum_list (map (occ ?ss) (plist pl pid'))"
    proof (cases "pid' = pid")
      case True
      have "sum_list (map (occ ?ss) (plist pl pid)) + occ ss (Some sp)
            = sum_list (map (occ ss) (plist pl pid)) + occ ?ss (Some sp)"
        using shape(3) d True by (intro sum_list_change_one) (auto simp: occ_store_other)
      moreover have "occ ss (Some sp) = occupied sk" "occ ?ss (Some sp) = occupied sk'"
        using sk(1) by (simp_all add: occ_def slen)
      ultimately have "sum_list (map (occ ?ss) (plist pl pid)) = sum_list (map (occ ss) (plist pl pid)) + 1"
        using occ1 by simp
      then show ?thesis
        using True d by simp
    next
      case False
      have "Some sp \<notin> set (plist pl pid')"
      proof
        assume "Some sp \<in> set (plist pl pid')"
        with d obtain sk0 where "deref ss sp = Inr sk0" "skt_skts sk0 = Some pid'" by blast
        then show False using sk False by simp
      qed
      then have "y \<noteq> Some sp" if "y \<in> set (plist pl pid')" for y
        using that by auto
      then have "sum_list (map (occ ?ss) (plist pl pid')) = sum_list (map (occ ss) (plist pl pid'))"
        by (intro sum_list_same occ_store_other)
      then show ?thesis using False d by simp
    qed
    show "skt_count (?pl pid') \<le> length (skts_skt (?pl pid'))
      \<and> m \<le> length (skts_skt (?pl pid'))
      \<and> distinct (plist ?pl pid')
      \<and> (\<forall>x \<in> set (plist ?pl pid'). \<exists>sp sk. x = Some sp \<and> deref ?ss sp = Inr sk \<and> skt_skts sk = Some pid')
      \<and> skts_queries_count (?pl pid') = sum_list (map (occ ?ss) (plist ?pl pid'))"
      unfolding plist_upd_counter fields using d live sum by blast
  qed
  show ?thesis
    unfolding inv_core_def using I1' I2' I3' I4' by simp
qed

lemma deref_append:
  "deref (h @ [Some v]) p = (if p = length h then Inr v else deref h p)"
  by (auto simp: deref_def nth_append)

lemma occupied_new_skt [simp]: "occupied (new_skt pid) = 0"
  by (simp add: occupied_def new_skt_def empty_udata_def)

lemma occ_append_old: "deref ss sp = Inr sk \<Longrightarrow> occ (ss @ [Some v]) (Some sp) = occ ss (Some sp)"
  by (auto simp: occ_def deref_append dest: deref_Inr_length)

lemma occ_release_other: "x \<noteq> Some sp \<Longrightarrow> occ (release ss sp) x = occ ss x"
  by (cases x) (auto simp: occ_def)

lemma inv_new_skt:
  assumes inv: "inv_core (qs, ss, pl, m)"
    and room: "skt_count (pl pid) < length (skts_skt (pl pid))"
  shows "inv_core (qs, ss @ [Some (new_skt pid)],
                   pl(pid := (pl pid)\<lparr>skt_count := skt_count (pl pid) + 1,
                                       skts_skt := (skts_skt (pl pid))[skt_count (pl pid) := Some (length ss)]\<rparr>),
                   m)"
proof -
  from inv have i1: "I1 (qs, ss, pl, m)" and i2: "I2 (qs, ss, pl, m)"
    and i3: "I3 (qs, ss, pl, m)" and i4: "I4 (qs, ss, pl, m)"
    by (simp_all add: inv_core_def)
  let ?new = "length ss"
  let ?ss = "ss @ [Some (new_skt pid)]"
  let ?pl = "pl(pid := (pl pid)\<lparr>skt_count := skt_count (pl pid) + 1,
                                  skts_skt := (skts_skt (pl pid))[skt_count (pl pid) := Some ?new]\<rparr>)"
  have pl_same: "plist ?pl pid' = plist pl pid'" if "pid' \<noteq> pid" for pid'
    using that by (simp add: plist_def)
  have pl_new: "plist ?pl pid = plist pl pid @ [Some ?new]"
    using room by (simp add: plist_def take_Suc_conv_app_nth)
  have old: "deref ?ss sp = Inr sk" if "deref ss sp = Inr sk" for sp sk
    using that by (auto simp: deref_append dest: deref_Inr_length)
  have I1': "I1 (qs, ?ss, ?pl, m)"
  proof (rule I1_I)
    fix qp' q0 sp'
    assume a: "deref qs qp' = Inr q0" "q_skt q0 = Some sp'"
    from I1_D [OF i1 a] obtain sk0 where
      b: "deref ss sp' = Inr sk0" "query_id q0 < length (queries_tmr sk0)"
         "ident (queries_tmr sk0 ! query_id q0) = Some qp'"
      by blast
    then show "\<exists>sk. deref ?ss sp' = Inr sk \<and> query_id q0 < length (queries_tmr sk)
            \<and> ident (queries_tmr sk ! query_id q0) = Some qp'"
      using old by blast
  qed
  have I2': "I2 (qs, ?ss, ?pl, m)"
  proof (rule I2_I)
    fix sp' sk0 i qp'
    assume a: "deref ?ss sp' = Inr sk0" "i < (256::nat)" "ident (queries_tmr sk0 ! i) = Some qp'"
    show "\<exists>q. deref qs qp' = Inr q \<and> q_skt q = Some sp' \<and> query_id q = i"
    proof (cases "sp' = ?new")
      case True
      then have "sk0 = new_skt pid" using a(1) by (simp add: deref_append)
      then show ?thesis
        using a(2,3) by (simp add: new_skt_def empty_udata_def RADIUS_PKT_HDR_ID_MAX_COUNT_def)
    next
      case False
      then have "deref ss sp' = Inr sk0" using a(1) by (simp add: deref_append)
      from I2_D [OF i2 this a(2,3)] show ?thesis .
    qed
  qed
  have I3': "I3 (qs, ?ss, ?pl, m)"
  proof (rule I3_I)
    fix sp' sk0
    assume a: "deref ?ss sp' = Inr sk0"
    show "length (queries_tmr sk0) = 256 \<and> skt_queries_index sk0 \<le> 256
          \<and> skt_queries_count sk0 = occupied sk0
          \<and> (\<exists>pid'. skt_skts sk0 = Some pid' \<and> Some sp' \<in> set (plist ?pl pid'))"
    proof (cases "sp' = ?new")
      case True
      then have "sk0 = new_skt pid" using a by (simp add: deref_append)
      moreover have "skt_skts (new_skt pid) = Some pid" "skt_queries_count (new_skt pid) = 0"
        "skt_queries_index (new_skt pid) = 0" "length (queries_tmr (new_skt pid)) = 256"
        by (simp_all add: new_skt_def RADIUS_PKT_HDR_ID_MAX_COUNT_def)
      ultimately show ?thesis using True pl_new by simp
    next
      case False
      then have "deref ss sp' = Inr sk0" using a by (simp add: deref_append)
      from I3_D [OF i3 this] obtain pid' where
        c: "length (queries_tmr sk0) = 256" "skt_queries_index sk0 \<le> 256"
           "skt_queries_count sk0 = occupied sk0" "skt_skts sk0 = Some pid'"
           "Some sp' \<in> set (plist pl pid')"
        by blast
      have "Some sp' \<in> set (plist ?pl pid')"
        using c(5) pl_new pl_same [of pid'] by (cases "pid' = pid") simp_all
      then show ?thesis using c by blast
    qed
  qed
  have I4': "I4 (qs, ?ss, ?pl, m)"
  proof (rule I4_I)
    fix pid'
    note d = I4_D [OF i4, of pid']
    have live_old: "\<exists>sp0 sk0. x = Some sp0 \<and> deref ?ss sp0 = Inr sk0 \<and> skt_skts sk0 = Some pid'"
      and occ_old: "occ ?ss x = occ ss x"
      if "x \<in> set (plist pl pid')" for x
    proof -
      from d that obtain sp0 sk0 where
        x: "x = Some sp0" "deref ss sp0 = Inr sk0" "skt_skts sk0 = Some pid'"
        by blast
      show "\<exists>sp0 sk0. x = Some sp0 \<and> deref ?ss sp0 = Inr sk0 \<and> skt_skts sk0 = Some pid'"
        using x old by blast
      show "occ ?ss x = occ ss x"
        using x occ_append_old by blast
    qed
    have sum_old: "sum_list (map (occ ?ss) (plist pl pid')) = sum_list (map (occ ss) (plist pl pid'))"
      by (intro sum_list_same occ_old)
    show "skt_count (?pl pid') \<le> length (skts_skt (?pl pid'))
      \<and> m \<le> length (skts_skt (?pl pid'))
      \<and> distinct (plist ?pl pid')
      \<and> (\<forall>x \<in> set (plist ?pl pid'). \<exists>sp sk. x = Some sp \<and> deref ?ss sp = Inr sk \<and> skt_skts sk = Some pid')
      \<and> skts_queries_count (?pl pid') = sum_list (map (occ ?ss) (plist ?pl pid'))"
    proof (cases "pid' = pid")
      case True
      have fresh: "Some ?new \<notin> set (plist pl pid)"
      proof
        assume "Some ?new \<in> set (plist pl pid)"
        with d True obtain sk0 where "deref ss ?new = Inr sk0" by blast
        then show False by (auto dest: deref_Inr_length)
      qed
      have "occ ?ss (Some ?new) = 0"
        by (simp add: occ_def deref_append)
      moreover have "deref ?ss ?new = Inr (new_skt pid)" "skt_skts (new_skt pid) = Some pid"
        by (simp_all add: new_skt_def)
      ultimately show ?thesis
        unfolding True pl_new using True d room fresh live_old sum_old by auto
    next
      case False
      have ps: "plist ?pl pid' = plist pl pid'" by (rule pl_same [OF False])
      have pp: "?pl pid' = pl pid'" using False by simp
      show ?thesis
        unfolding ps pp using d live_old sum_old by auto
    qed
  qed
  show ?thesis
    unfolding inv_core_def using I1' I2' I3' I4' by simp
qed

lemma inv_shrink:
  assumes inv: "inv_core (qs, ss, pl, m)"
    and sk: "deref ss sp = Inr sk" "skt_skts sk = Some pid" "skt_queries_count sk = 0"
    and last: "0 < skt_count (pl pid)" "skts_skt (pl pid) ! (skt_count (pl pid) - 1) = Some sp"
    and p': "skts_queries_count p' = skts_queries_count (pl pid)"
      "skt_count p' = skt_count (pl pid) - 1"
      "length (skts_skt p') = length (skts_skt (pl pid))"
      "take (skt_count (pl pid) - 1) (skts_skt p') = take (skt_count (pl pid) - 1) (skts_skt (pl pid))"
  shows "inv_core (qs, release ss sp, pl(pid := p'), m)"
proof -
  from inv have i1: "I1 (qs, ss, pl, m)" and i2: "I2 (qs, ss, pl, m)"
    and i3: "I3 (qs, ss, pl, m)" and i4: "I4 (qs, ss, pl, m)"
    by (simp_all add: inv_core_def)
  let ?ss = "release ss sp"
  let ?pl = "pl(pid := p')"
  let ?c = "skt_count (pl pid)"
  define L where "L = take (?c - 1) (skts_skt (pl pid))"
  note dp = I4_D [OF i4, of pid]
  have "?c \<le> length (skts_skt (pl pid))" using dp by blast
  then have "?c - 1 < length (skts_skt (pl pid))" using last(1) by linarith
  then have "take (Suc (?c - 1)) (skts_skt (pl pid)) = L @ [skts_skt (pl pid) ! (?c - 1)]"
    unfolding L_def by (rule take_Suc_conv_app_nth)
  then have pl_old: "plist pl pid = L @ [Some sp]"
    using last by (simp add: plist_def)
  have pl_new: "plist ?pl pid = L"
    using p'(2,4) by (simp add: plist_def L_def)
  have pl_same: "plist ?pl pid' = plist pl pid'" if "pid' \<noteq> pid" for pid'
    using that by (simp add: plist_def)
  have notin: "Some sp \<notin> set L" and dist: "distinct L"
    using dp pl_old by simp_all
  have empty: "occupied sk = 0"
    using I3_D [OF i3 sk(1)] sk(3) by simp
  have other: "deref ?ss sp' = Inr sk0 \<longleftrightarrow> sp' \<noteq> sp \<and> deref ss sp' = Inr sk0" for sp' sk0
    by simp
  have I1': "I1 (qs, ?ss, ?pl, m)"
  proof (rule I1_I)
    fix qp' q0 sp'
    assume a: "deref qs qp' = Inr q0" "q_skt q0 = Some sp'"
    from I1_D [OF i1 a] obtain sk0 where
      b: "deref ss sp' = Inr sk0" "query_id q0 < length (queries_tmr sk0)"
         "ident (queries_tmr sk0 ! query_id q0) = Some qp'"
      by blast
    have "sp' \<noteq> sp"
    proof
      assume "sp' = sp"
      then have "sk0 = sk" using b(1) sk(1) by simp
      then have "0 < occupied sk" using occupied_pos b(2,3) by blast
      then show False using empty by simp
    qed
    then show "\<exists>sk. deref ?ss sp' = Inr sk \<and> query_id q0 < length (queries_tmr sk)
            \<and> ident (queries_tmr sk ! query_id q0) = Some qp'"
      using b by simp
  qed
  have I2': "I2 (qs, ?ss, ?pl, m)"
  proof (rule I2_I)
    fix sp' sk0 i qp'
    assume a: "deref ?ss sp' = Inr sk0" "i < (256::nat)" "ident (queries_tmr sk0 ! i) = Some qp'"
    from a(1) have "deref ss sp' = Inr sk0" by (simp split: if_splits)
    from I2_D [OF i2 this a(2,3)]
    show "\<exists>q. deref qs qp' = Inr q \<and> q_skt q = Some sp' \<and> query_id q = i" .
  qed
  have I3': "I3 (qs, ?ss, ?pl, m)"
  proof (rule I3_I)
    fix sp' sk0
    assume a: "deref ?ss sp' = Inr sk0"
    then have ne: "sp' \<noteq> sp" and a1: "deref ss sp' = Inr sk0" by (simp_all split: if_splits)
    from I3_D [OF i3 a1] obtain pid' where
      c: "length (queries_tmr sk0) = 256" "skt_queries_index sk0 \<le> 256"
         "skt_queries_count sk0 = occupied sk0" "skt_skts sk0 = Some pid'"
         "Some sp' \<in> set (plist pl pid')"
      by blast
    have "Some sp' \<in> set (plist ?pl pid')"
    proof (cases "pid' = pid")
      case True
      then show ?thesis using c(5) ne pl_old pl_new by simp
    next
      case False
      then show ?thesis using c(5) pl_same by simp
    qed
    then show "length (queries_tmr sk0) = 256 \<and> skt_queries_index sk0 \<le> 256
          \<and> skt_queries_count sk0 = occupied sk0
          \<and> (\<exists>pid'. skt_skts sk0 = Some pid' \<and> Some sp' \<in> set (plist ?pl pid'))"
      using c by blast
  qed
  have I4': "I4 (qs, ?ss, ?pl, m)"
  proof (rule I4_I)
    fix pid'
    note d = I4_D [OF i4, of pid']
    show "skt_count (?pl pid') \<le> length (skts_skt (?pl pid'))
      \<and> m \<le> length (skts_skt (?pl pid'))
      \<and> distinct (plist ?pl pid')
      \<and> (\<forall>x \<in> set (plist ?pl pid'). \<exists>sp sk. x = Some sp \<and> deref ?ss sp = Inr sk \<and> skt_skts sk = Some pid')
      \<and> skts_queries_count (?pl pid') = sum_list (map (occ ?ss) (plist ?pl pid'))"
    proof (cases "pid' = pid")
      case True
      have live: "\<exists>sp0 sk0. x = Some sp0 \<and> deref ?ss sp0 = Inr sk0 \<and> skt_skts sk0 = Some pid"
        and occ_eq: "occ ?ss x = occ ss x" if "x \<in> set L" for x
      proof -
        have "x \<noteq> Some sp" using that notin by auto
        then show "occ ?ss x = occ ss x" by (rule occ_release_other)
        from dp that pl_old obtain sp0 sk0 where
          x: "x = Some sp0" "deref ss sp0 = Inr sk0" "skt_skts sk0 = Some pid"
          by auto
        then show "\<exists>sp0 sk0. x = Some sp0 \<and> deref ?ss sp0 = Inr sk0 \<and> skt_skts sk0 = Some pid"
          using \<open>x \<noteq> Some sp\<close> by simp
      qed
      have "sum_list (map (occ ?ss) L) = sum_list (map (occ ss) L)"
        by (intro sum_list_same occ_eq)
      moreover have "occ ss (Some sp) = 0"
        using sk(1) empty by (simp add: occ_def)
      ultimately have "skts_queries_count p' = sum_list (map (occ ?ss) L)"
        using dp pl_old p'(1) by simp
      moreover have "skt_count p' \<le> length (skts_skt p')" "m \<le> length (skts_skt p')"
        using \<open>?c \<le> length (skts_skt (pl pid))\<close> dp p'(2,3) by auto
      moreover have "?pl pid = p'" by simp
      ultimately show ?thesis
        unfolding True pl_new using dist live by auto
    next
      case False
      have live: "\<exists>sp0 sk0. x = Some sp0 \<and> deref ?ss sp0 = Inr sk0 \<and> skt_skts sk0 = Some pid'"
        and occ_eq: "occ ?ss x = occ ss x" if "x \<in> set (plist pl pid')" for x
      proof -
        from d that obtain sp0 sk0 where
          x: "x = Some sp0" "deref ss sp0 = Inr sk0" "skt_skts sk0 = Some pid'"
          by blast
        then have "sp0 \<noteq> sp" using sk False by auto
        then show "\<exists>sp0 sk0. x = Some sp0 \<and> deref ?ss sp0 = Inr sk0 \<and> skt_skts sk0 = Some pid'"
          using x by simp
        show "occ ?ss x = occ ss x"
          using x \<open>sp0 \<noteq> sp\<close> by (intro occ_release_other) simp
      qed
      have "sum_list (map (occ ?ss) (plist pl pid')) = sum_list (map (occ ss) (plist pl pid'))"
        by (intro sum_list_same occ_eq)
      moreover have ps: "plist ?pl pid' = plist pl pid'" by (rule pl_same [OF False])
      moreover have pp: "?pl pid' = pl pid'" using False by simp
      ultimately show ?thesis
        using d live by auto
    qed
  qed
  show ?thesis
    unfolding inv_core_def using I1' I2' I3' I4' by simp
qed

subsection \<open>Partial correctness of fallible steps\<close>

lemma holds_simps [simp]:
  "holds P (Inl f)"
  "holds P (Inr x) = P x"
  by (simp_all add: holds_def)

lemma holdsD: "holds P m \<Longrightarrow> m = Inr x \<Longrightarrow> P x"
  by (simp add: holds_def)

lemma holdsI: "(\<And>x. m = Inr x \<Longrightarrow> P x) \<Longrightarrow> holds P m"
  by (cases m) (simp_all add: holds_def)

lemma holds_bindF:
  assumes "holds Q m" and "\<And>x. Q x \<Longrightarrow> m = Inr x \<Longrightarrow> holds P (g x)"
  shows "holds P (bindF m g)"
  using assms by (cases m) (simp_all add: holds_def)

lemma holds_bindF_any:
  assumes "\<And>x. m = Inr x \<Longrightarrow> holds P (g x)"
  shows "holds P (bindF m g)"
  using assms by (cases m) (simp_all add: holds_def)

lemma holds_if:
  assumes "c \<Longrightarrow> holds P a" and "\<not> c \<Longrightarrow> holds P b"
  shows "holds P (if c then a else b)"
  using assms by simp

lemma holds_case_option:
  assumes "x = None \<Longrightarrow> holds P a" and "\<And>y. x = Some y \<Longrightarrow> holds P (b y)"
  shows "holds P (case x of None \<Rightarrow> a | Some y \<Rightarrow> b y)"
  using assms by (cases x) simp_all

lemma holds_case_prod:
  assumes "\<And>a b. x = (a, b) \<Longrightarrow> holds P (f a b)"
  shows "holds P (case x of (a, b) \<Rightarrow> f a b)"
  using assms by (cases x) simp

lemma holds_weaken: "holds Q m \<Longrightarrow> (\<And>x. Q x \<Longrightarrow> P x) \<Longrightarrow> holds P m"
  by (cases m) (simp_all add: holds_def)

lemmas holds_split = holds_bindF_any holds_if holds_case_option holds_case_prod

lemma set_skts_fields [simp]:
  "cli_srv_count (set_skts pid p st) = cli_srv_count st"
  "srv (set_skts pid p st) = srv st"
  "thr_tpt (set_skts pid p st) = thr_tpt st"
  "thr_sockets_min (set_skts pid p st) = thr_sockets_min st"
  "thr_sockets_max (set_skts pid p st) = thr_sockets_max st"
  "queries (set_skts pid p st) = queries st"
  "sockets (set_skts pid p st) = sockets st"
  "now (set_skts pid p st) = now st"
  by (simp_all add: set_skts_def split: pool_id.splits)

lemma get_set_skts [simp]:
  "get_skts (set_skts pid p st) pid' = (if pid' = pid then p else get_skts st pid')"
  by (auto simp: get_skts_def set_skts_def split: pool_id.splits)

lemma get_skts_upd [simp]:
  "get_skts (st\<lparr>queries := a\<rparr>) = get_skts st"
  "get_skts (st\<lparr>sockets := b\<rparr>) = get_skts st"
  "get_skts (st\<lparr>now := n\<rparr>) = get_skts st"
  "get_skts (st\<lparr>wire := w\<rparr>) = get_skts st"
  "get_skts (st\<lparr>tpt_msgs := ms\<rparr>) = get_skts st"
  "get_skts (st\<lparr>cb_log := l\<rparr>) = get_skts st"
  "get_skts (tick st) = get_skts st"
  by (simp_all add: get_skts_def tick_def fun_eq_iff split: pool_id.splits)

lemma tick_fields [simp]:
  "cli_srv_count (tick st) = cli_srv_count st"
  "srv (tick st) = srv st"
  "thr_tpt (tick st) = thr_tpt st"
  "thr_sockets_min (tick st) = thr_sockets_min st"
  "thr_sockets_max (tick st) = thr_sockets_max st"
  "queries (tick st) = queries st"
  "sockets (tick st) = sockets st"
  by (simp_all add: tick_def)

lemma release_store [simp]: "release (store h p v) p = release h p"
  by (simp add: release_def store_def)

lemma socket_free_queries_empty:
  "(\<forall>u \<in> set us. ident u = None) \<Longrightarrow> socket_free_queries e us st = Inr st"
  by (induction us) simp_all

lemma find_last_distinct:
  assumes "0 < n" "n \<le> length xs" "distinct (take n xs)" "xs ! (n - 1) = x"
  shows "List.find (\<lambda>i. x = xs ! i) [0..<n] = Some (n - 1)"
proof -
  have ne: "x \<noteq> xs ! j" if "j < n - 1" for j
  proof
    assume "x = xs ! j"
    then have "take n xs ! j = take n xs ! (n - 1)"
      using that assms(1,4) by simp
    moreover have "j < length (take n xs)" "n - 1 < length (take n xs)"
      using that assms(1,2) by simp_all
    ultimately have "j = n - 1"
      using assms(3) nth_eq_iff_index_eq by blast
    then show False using that by simp
  qed
  show ?thesis
    unfolding find_Some_iff using assms(1,4)
    by (intro exI [of _ "n - 1"]) (simp add: ne)
qed

lemma same_cfg_refl [simp]: "same_cfg st st"
  by (simp add: same_cfg_def)

lemma same_cfg_trans: "same_cfg a b \<Longrightarrow> same_cfg b c \<Longrightarrow> same_cfg a c"
  by (simp add: same_cfg_def)

lemma same_cfg_upd [simp]:
  "same_cfg st (st'\<lparr>queries := a\<rparr>) = same_cfg st st'"
  "same_cfg st (st'\<lparr>sockets := b\<rparr>) = same_cfg st st'"
  "same_cfg st (st'\<lparr>now := n\<rparr>) = same_cfg st st'"
  "same_cfg st (st'\<lparr>wire := w\<rparr>) = same_cfg st st'"
  "same_cfg st (st'\<lparr>tpt_msgs := ms\<rparr>) = same_cfg st st'"
  "same_cfg st (st'\<lparr>cb_log := l\<rparr>) = same_cfg st st'"
  "same_cfg st (tick st') = same_cfg st st'"
  "same_cfg st (set_skts pid p st') = same_cfg st st'"
  by (simp_all add: same_cfg_def)

lemma same_cfg_left [simp]:
  "same_cfg (st\<lparr>queries := a\<rparr>) st' = same_cfg st st'"
  "same_cfg (st\<lparr>sockets := b\<rparr>) st' = same_cfg st st'"
  "same_cfg (st\<lparr>now := n\<rparr>) st' = same_cfg st st'"
  "same_cfg (st\<lparr>wire := w\<rparr>) st' = same_cfg st st'"
  "same_cfg (tick st) st' = same_cfg st st'"
  "same_cfg (set_skts pid p st) st' = same_cfg st st'"
  "same_cfg (set_tmr sp sk i t st) st' = same_cfg st st'"
  by (simp_all add: same_cfg_def set_tmr_def)

lemma set_skts_logs [simp]:
  "cb_log (set_skts pid p st) = cb_log st"
  "tpt_msgs (set_skts pid p st) = tpt_msgs st"
  "cb_log (tick st) = cb_log st"
  "tpt_msgs (tick st) = tpt_msgs st"
  by (simp_all add: set_skts_def tick_def split: pool_id.splits)

lemma socket_free_last_returns:
  assumes inv: "slot_inv st"
    and sk: "deref (sockets st) sp = Inr sk" "skt_queries_count sk = 0" "skt_skts sk = Some pid"
    and last: "0 < skt_count (get_skts st pid)"
      "skts_skt (get_skts st pid) ! (skt_count (get_skts st pid) - 1) = Some sp"
  shows "\<exists>st'. radius_client_socket_free e sp st = Inr st' \<and> slot_inv st' \<and> same_cfg st st'
           \<and> queries st' = queries st \<and> cb_log st' = cb_log st \<and> tpt_msgs st' = tpt_msgs st"
proof (cases "thread_get_current e = thr_tpt st")
  case False
  then show ?thesis
    using inv sk(1) by (simp add: radius_client_socket_free_def)
next
  case True
  let ?p = "get_skts st pid"
  let ?c = "skt_count ?p"
  from inv have core: "inv_core (queries st, sockets st, get_skts st, thr_sockets_max st)"
    by (simp add: slot_inv_core view_def)
  then have i3: "I3 (queries st, sockets st, get_skts st, thr_sockets_max st)"
    and i4: "I4 (queries st, sockets st, get_skts st, thr_sockets_max st)"
    by (simp_all add: inv_core_def)
  note d = I4_D [OF i4, of pid]
  have len: "?c \<le> length (skts_skt ?p)" using d by blast
  have dist: "distinct (take ?c (skts_skt ?p))" using d by (simp add: plist_def)
  have fnd: "List.find (\<lambda>i. Some sp = skts_skt ?p ! i) [0..<?c] = Some (?c - 1)"
    using find_last_distinct [OF last(1) len dist last(2)] .
  define p2 where "p2 = ?p\<lparr>skts_queries_count := size_t_sub (skts_queries_count ?p) (skt_queries_count sk),
                           skt_count := size_t_dec ?c,
                           skts_skt := (skts_skt ?p)[?c - 1 := None]\<rparr>"
  define st1 where "st1 = set_skts pid p2 (st\<lparr>sockets := store (sockets st) sp (sk\<lparr>skt_skts := None\<rparr>)\<rparr>)"
  have rm: "skts_remove sp sk st = Inr st1"
    using len fnd by (simp add: skts_remove_def sk(3) Let_def st1_def p2_def)
  have "occupied sk = 0" using I3_D [OF i3 sk(1)] sk(2) by simp
  then have fq: "socket_free_queries e (queries_tmr sk) st1 = Inr st1"
    by (intro socket_free_queries_empty) (simp add: occupied_zero_iff)
  let ?st' = "st1\<lparr>sockets := release (sockets st1) sp\<rparr>"
  have run: "radius_client_socket_free e sp st = Inr ?st'"
    using True sk(1) rm fq by (simp add: radius_client_socket_free_def)
  have "inv_core (queries st, release (sockets st) sp, (get_skts st)(pid := p2), thr_sockets_max st)"
    using core sk(1,3,2) last
    by (rule inv_shrink) (use last(1) in \<open>simp_all add: p2_def size_t_sub_def size_t_dec_def sk(2)\<close>)
  moreover have "view ?st' = (queries st, release (sockets st) sp, (get_skts st)(pid := p2), thr_sockets_max st)"
    by (simp add: st1_def fun_eq_iff)
  ultimately have "slot_inv ?st'" by (simp add: slot_inv_core)
  then show ?thesis
    unfolding run by (simp add: st1_def)
qed

lemma socket_free_last_inv:
  assumes "slot_inv st"
    and "deref (sockets st) sp = Inr sk" "skt_queries_count sk = 0" "skt_skts sk = Some pid"
    and "0 < skt_count (get_skts st pid)"
      "skts_skt (get_skts st pid) ! (skt_count (get_skts st pid) - 1) = Some sp"
  shows "holds (\<lambda>st'. slot_inv st' \<and> same_cfg st st' \<and> queries st' = queries st)
           (radius_client_socket_free e sp st)"
proof -
  from socket_free_last_returns [OF assms, of e] obtain st' where
    "radius_client_socket_free e sp st = Inr st'" "slot_inv st'" "same_cfg st st'"
    "queries st' = queries st"
    by blast
  then show ?thesis by simp
qed

lemma unlink_skt_returns:
  assumes inv: "slot_inv st" and q: "deref (queries st) qp = Inr q"
  shows "\<exists>st'. radius_client_query_unlink_skt e qp st = Inr st' \<and> slot_inv st' \<and> same_cfg st st'
           \<and> queries st' = store (queries st) qp (q\<lparr>q_skt := None\<rparr>)
           \<and> cb_log st' = cb_log st \<and> tpt_msgs st' = tpt_msgs st"
proof (cases "q_skt q")
  case None
  then have eq: "q\<lparr>q_skt := None\<rparr> = q" by simp
  have same: "store (queries st) qp (q\<lparr>q_skt := None\<rparr>) = queries st"
    unfolding eq using q by (simp add: store_def deref_iff list_update_same_conv)
  show ?thesis
    using inv q None by (simp add: radius_client_query_unlink_skt_def same)
next
  case (Some sp)
  from inv have core: "inv_core (queries st, sockets st, get_skts st, thr_sockets_max st)"
    by (simp add: slot_inv_core view_def)
  then have i1: "I1 (queries st, sockets st, get_skts st, thr_sockets_max st)"
    and i3: "I3 (queries st, sockets st, get_skts st, thr_sockets_max st)"
    and i4: "I4 (queries st, sockets st, get_skts st, thr_sockets_max st)"
    by (simp_all add: inv_core_def)
  from I1_D [OF i1 q Some] obtain sk where
    sk: "deref (sockets st) sp = Inr sk" "query_id q < length (queries_tmr sk)"
    by blast
  from I3_D [OF i3 sk(1)] obtain pid where
    pid: "skt_skts sk = Some pid" "Some sp \<in> set (plist (get_skts st) pid)"
    by blast
  define sk1 where "sk1 = sk\<lparr>queries_tmr := (queries_tmr sk)[query_id q := empty_udata],
                              skt_queries_count := size_t_dec (skt_queries_count sk)\<rparr>"
  define p1 where "p1 = (get_skts st pid)\<lparr>skts_queries_count :=
                           size_t_dec (skts_queries_count (get_skts st pid))\<rparr>"
  define st1 where "st1 = set_skts pid p1
                            (st\<lparr>queries := store (queries st) qp (q\<lparr>q_skt := None\<rparr>),
                                sockets := store (sockets st) sp sk1\<rparr>)"
  have "inv_core (store (queries st) qp (q\<lparr>q_skt := None\<rparr>), store (sockets st) sp sk1,
                  (get_skts st)(pid := p1), thr_sockets_max st)"
    unfolding sk1_def p1_def using core q Some sk(1) pid(1) by (rule inv_detach)
  moreover have "view st1 = (store (queries st) qp (q\<lparr>q_skt := None\<rparr>), store (sockets st) sp sk1,
                  (get_skts st)(pid := p1), thr_sockets_max st)"
    by (simp add: st1_def fun_eq_iff)
  ultimately have inv1: "slot_inv st1" by (simp add: slot_inv_core)
  have post1: "slot_inv st1 \<and> same_cfg st st1
               \<and> queries st1 = store (queries st) qp (q\<lparr>q_skt := None\<rparr>)"
    using inv1 by (simp add: st1_def)
  have slen: "sp < length (sockets st)" using sk(1) by (rule deref_Inr_length)
  have run: "radius_client_query_unlink_skt e qp st =
               (if skt_queries_count sk1 = 0 \<and> thr_sockets_min st < skt_count p1
                then bindF (index (skts_skt p1) (size_t_dec (skt_count p1))) (\<lambda>last.
                       if last = Some sp then radius_client_socket_free e sp st1 else Inr st1)
                else Inr st1)"
    using q Some sk pid(1)
    by (simp add: radius_client_query_unlink_skt_def index_def Let_def sk1_def p1_def st1_def)
  have logs1: "cb_log st1 = cb_log st" "tpt_msgs st1 = tpt_msgs st"
    by (simp_all add: st1_def)
  show ?thesis
  proof (cases "skt_queries_count sk1 = 0 \<and> thr_sockets_min st < skt_count p1")
    case False
    have "radius_client_query_unlink_skt e qp st = Inr st1"
      unfolding run by (rule if_not_P [OF False])
    then show ?thesis
      using post1 logs1 by simp
  next
    case c: True
    have cnt: "skt_count p1 \<le> length (skts_skt p1)"
      using I4_D [OF i4, of pid] by (simp add: p1_def)
    have pos: "0 < skt_count p1" using c by simp
    have idx: "index (skts_skt p1) (size_t_dec (skt_count p1)) = Inr (skts_skt p1 ! (skt_count p1 - 1))"
      using cnt pos by (simp add: index_def size_t_dec_def)
    have r1: "radius_client_query_unlink_skt e qp st =
                (if skts_skt p1 ! (skt_count p1 - 1) = Some sp
                 then radius_client_socket_free e sp st1 else Inr st1)"
      unfolding run if_P [OF c] idx by simp
    show ?thesis
    proof (cases "skts_skt p1 ! (skt_count p1 - 1) = Some sp")
      case False
      then show ?thesis
        unfolding r1 using post1 logs1 by simp
    next
      case True
      have pos': "0 < skt_count (get_skts st1 pid)"
        using pos by (simp add: st1_def)
      have lst: "skts_skt (get_skts st1 pid) ! (skt_count (get_skts st1 pid) - 1) = Some sp"
        using True by (simp add: st1_def)
      have d1: "deref (sockets st1) sp = Inr sk1"
        by (simp add: st1_def slen)
      have e1: "skt_queries_count sk1 = 0" "skt_skts sk1 = Some pid"
        using c pid(1) by (simp_all add: sk1_def)
      from socket_free_last_returns [OF inv1 d1 e1 pos' lst, of e] obtain st' where
        r: "radius_client_socket_free e sp st1 = Inr st'" "slot_inv st'" "same_cfg st1 st'"
           "queries st' = queries st1" "cb_log st' = cb_log st1" "tpt_msgs st' = tpt_msgs st1"
        by blast
      have "same_cfg st st'" using post1 r(3) by (blast intro: same_cfg_trans)
      then show ?thesis
        unfolding r1 using True r post1 logs1 by simp
    qed
  qed
qed

lemma unlink_skt_inv:
  assumes "slot_inv st" and "deref (queries st) qp = Inr q"
  shows "holds (\<lambda>st'. slot_inv st' \<and> same_cfg st st'
                  \<and> queries st' = store (queries st) qp (q\<lparr>q_skt := None\<rparr>))
           (radius_client_query_unlink_skt e qp st)"
proof -
  from unlink_skt_returns [OF assms, of e] obtain st' where
    "radius_client_query_unlink_skt e qp st = Inr st'" "slot_inv st'" "same_cfg st st'"
    "queries st' = store (queries st) qp (q\<lparr>q_skt := None\<rparr>)"
    by blast
  then show ?thesis by simp
qed

lemma slot_inv_upd [simp]:
  "slot_inv (st\<lparr>now := n\<rparr>) = slot_inv st"
  "slot_inv (st\<lparr>wire := w\<rparr>) = slot_inv st"
  "slot_inv (st\<lparr>tpt_msgs := ms\<rparr>) = slot_inv st"
  "slot_inv (st\<lparr>cb_log := l\<rparr>) = slot_inv st"
  "slot_inv (tick st) = slot_inv st"
  by (simp_all add: slot_inv_core)

lemma slot_inv_store_query:
  assumes "slot_inv st" "deref (queries st) qp = Inr q" "q_skt q' = q_skt q" "query_id q' = query_id q"
  shows "slot_inv (st\<lparr>queries := store (queries st) qp q'\<rparr>)"
  using inv_query_store [of "queries st" "sockets st" "get_skts st" "thr_sockets_max st" qp q q'] assms
  by (simp add: slot_inv_core view_def)

lemma slot_inv_release_query:
  assumes "slot_inv st" "\<And>q. deref (queries st) qp = Inr q \<Longrightarrow> q_skt q = None"
  shows "slot_inv (st\<lparr>queries := release (queries st) qp\<rparr>)"
  using inv_query_release [of "queries st" "sockets st" "get_skts st" "thr_sockets_max st" qp] assms
  by (simp add: slot_inv_core view_def)

lemma done_cb_inv:
  assumes "slot_inv st" "\<And>q. deref (queries st) qp = Inr q \<Longrightarrow> q_skt q = None"
  shows "holds (\<lambda>st'. slot_inv st' \<and> same_cfg st st')
           (radius_client_query_done_tpt_msg_cb e tpt qp st)"
  unfolding radius_client_query_done_tpt_msg_cb_def radius_client_query_free_def
proof (intro holds_split)
  fix q f
  assume "deref (queries st) qp = Inr q" "cb_func q = Some f"
  have "slot_inv (st\<lparr>queries := release (queries st) qp\<rparr>)"
    using assms by (rule slot_inv_release_query)
  then show "holds (\<lambda>st'. slot_inv st' \<and> same_cfg st st')
               (Inr (st\<lparr>cb_log := cb_log st @ [(qp, q_error q)],
                        queries := release (queries (st\<lparr>cb_log := cb_log st @ [(qp, q_error q)]\<rparr>)) qp\<rparr>))"
    by (simp add: slot_inv_core)
qed (use assms(1) in simp_all)

lemma done_unlinked_inv:
  assumes inv: "slot_inv st" and q: "deref (queries st) qp = Inr q" "q_skt q = None"
  shows "holds (\<lambda>st'. slot_inv st' \<and> same_cfg st st') (query_done_unlinked e qp buf error st)"
proof -
  have qlen: "qp < length (queries st)" using q(1) by (rule deref_Inr_length)
  have free: "slot_inv (st\<lparr>queries := release (queries st) qp\<rparr>)"
    using inv q by (intro slot_inv_release_query) auto
  have st: "slot_inv (st\<lparr>queries := store (queries st) qp q'\<rparr>)"
    if "q_skt q' = None" "query_id q' = query_id q" for q'
    using inv q(1) that by (intro slot_inv_store_query) (simp_all add: q(2))
  have same: "holds (\<lambda>st'. slot_inv st' \<and> same_cfg st st')
                (radius_client_query_done_tpt_msg_cb e tpt qp
                   (st\<lparr>queries := store (queries st) qp (q\<lparr>q_error := error\<rparr>)\<rparr>))" for tpt
  proof -
    let ?st1 = "st\<lparr>queries := store (queries st) qp (q\<lparr>q_error := error\<rparr>)\<rparr>"
    have "holds (\<lambda>st'. slot_inv st' \<and> same_cfg ?st1 st')
            (radius_client_query_done_tpt_msg_cb e tpt qp ?st1)"
      using st [of "q\<lparr>q_error := error\<rparr>"] q(2) qlen by (intro done_cb_inv) auto
    then show ?thesis
      by (rule holds_weaken) (simp add: same_cfg_def)
  qed
  have other: "holds (\<lambda>st'. slot_inv st' \<and> same_cfg st st')
                 (bindF m (\<lambda>q2. Inr (st\<lparr>queries := store (queries st) qp q2,
                                        tpt_msgs := tpt_msgs st @ [(q_tpt q, DONE_MSG qp)]\<rparr>)))"
    if m: "\<And>q2. m = Inr q2 \<Longrightarrow> q_skt q2 = None \<and> query_id q2 = query_id q" for m
  proof (rule holds_bindF_any)
    fix q2
    assume "m = Inr q2"
    from st [of q2] m [OF this]
    show "holds (\<lambda>st'. slot_inv st' \<and> same_cfg st st')
            (Inr (st\<lparr>queries := store (queries st) qp q2,
                     tpt_msgs := tpt_msgs st @ [(q_tpt q, DONE_MSG qp)]\<rparr>))"
      by (simp add: slot_inv_core)
  qed
  show ?thesis
  proof (cases "cb_func q = None")
    case True
    then show ?thesis
      using q(1) free by (simp add: query_done_unlinked_def radius_client_query_free_def)
  next
    case False
    then obtain f where cb: "cb_func q = Some f" by auto
    show ?thesis
    proof (cases "thr_tpt st = q_tpt q")
      case True
      then show ?thesis
        using q(1) cb same [of "q_tpt q"] by (simp add: query_done_unlinked_def Let_def)
    next
      case False
      have "holds (\<lambda>st'. slot_inv st' \<and> same_cfg st st')
              (bindF (case buf of
                        None \<Rightarrow> Inr (q\<lparr>q_error := error\<rparr>)
                      | Some bp \<Rightarrow>
                          if error = None
                          then bindF (deref (sockets st) bp) (\<lambda>bsk.
                                 Inr (q\<lparr>q_error := error,
                                        q_buf := io_buf_copy_buf (q_buf (q\<lparr>q_error := error\<rparr>)) (skt_buf bsk)\<rparr>))
                          else Inr (q\<lparr>q_error := error\<rparr>))
                 (\<lambda>q2. Inr (st\<lparr>queries := store (queries st) qp q2,
                              tpt_msgs := tpt_msgs st @ [(q_tpt q, DONE_MSG qp)]\<rparr>)))"
        by (rule other) (use q(2) in \<open>auto simp: bindF_Inr_iff split: option.splits if_splits\<close>)
      then show ?thesis
        using q(1) cb False by (simp add: query_done_unlinked_def Let_def)
    qed
  qed
qed

lemma query_done_inv:
  assumes inv: "slot_inv st"
  shows "holds (\<lambda>st'. slot_inv st' \<and> same_cfg st st') (radius_client_query_done e qp buf error st)"
proof (cases "deref (queries st) qp")
  case (Inl f)
  then have "radius_client_query_unlink_skt e qp st = Inl f"
    by (simp add: radius_client_query_unlink_skt_def)
  then show ?thesis by (simp add: radius_client_query_done_def)
next
  case (Inr q)
  have u: "holds (\<lambda>st'. slot_inv st' \<and> same_cfg st st'
                  \<and> queries st' = store (queries st) qp (q\<lparr>q_skt := None\<rparr>))
            (radius_client_query_unlink_skt e qp st)"
    using inv Inr by (rule unlink_skt_inv)
  show ?thesis
    unfolding radius_client_query_done_def
  proof (rule holds_bindF [OF u])
    fix st1
    assume a: "slot_inv st1 \<and> same_cfg st st1
                \<and> queries st1 = store (queries st) qp (q\<lparr>q_skt := None\<rparr>)"
    have "qp < length (queries st)" using Inr by (rule deref_Inr_length)
    then have d: "deref (queries st1) qp = Inr (q\<lparr>q_skt := None\<rparr>)" using a by simp
    have i: "slot_inv st1" using a by simp
    have "holds (\<lambda>st'. slot_inv st' \<and> same_cfg st1 st') (query_done_unlinked e qp buf error st1)"
      using i d by (rule done_unlinked_inv) simp
    then show "holds (\<lambda>st'. slot_inv st' \<and> same_cfg st st') (query_done_unlinked e qp buf error st1)"
      using a by (auto elim!: holds_weaken intro: same_cfg_trans)
  qed
qed

lemma set_tmr_fields [simp]:
  "queries (set_tmr sp sk i t st) = queries st"
  "same_cfg st0 (set_tmr sp sk i t st) = same_cfg st0 st"
  by (simp_all add: set_tmr_def)

lemma slot_inv_set_tmr:
  assumes "slot_inv st" "deref (sockets st) sp = Inr sk"
  shows "slot_inv (set_tmr sp sk i t st)"
proof -
  let ?sk = "sk\<lparr>queries_tmr := (queries_tmr sk)[i := (queries_tmr sk ! i)\<lparr>ev_tmr := t\<rparr>]\<rparr>"
  have "ident (queries_tmr ?sk ! k) = ident (queries_tmr sk ! k)" for k
    by (cases "length (queries_tmr sk) \<le> i"; cases "k = i") (simp_all add: list_update_beyond)
  then have "inv_core (queries st, store (sockets st) sp ?sk, get_skts st, thr_sockets_max st)"
    using assms by (intro inv_skt_timer [where sk = sk]) (simp_all add: slot_inv_core view_def)
  then show ?thesis
    by (simp add: slot_inv_core view_def set_tmr_def)
qed

lemma send_inv:
  assumes "slot_inv st"
  shows "holds (\<lambda>r. slot_inv (snd r) \<and> same_cfg st (snd r) \<and> queries (snd r) = queries st)
           (radius_client_send e qp st)"
  unfolding radius_client_send_def Let_def
  by (intro holds_split) (use assms in \<open>auto intro!: slot_inv_set_tmr\<close>)

lemma sign_and_send_inv:
  assumes inv: "slot_inv st"
  shows "holds (\<lambda>r. slot_inv (snd r) \<and> same_cfg st (snd r)) (sign_and_send e qp sv st)"
  unfolding sign_and_send_def Let_def
proof (intro holds_split)
  fix q x b
  assume q: "deref (queries st) qp = Inr q"
  let ?q1 = "q\<lparr>q_buf := b,
                retrans_time := send_new_retrans_time (srv_s sv)
                   (rnd_tm e (now st) (retrans_time_init (srv_s sv)))
                   (rnd_tm e (now st + 1) (retrans_time_max (srv_s sv))),
                retrans_count := 0, retrans_duration := 0\<rparr>"
  let ?st1 = "st\<lparr>queries := store (queries st) qp ?q1, now := now st + 2\<rparr>"
  have "slot_inv (st\<lparr>queries := store (queries st) qp ?q1\<rparr>)"
    using inv q by (rule slot_inv_store_query) simp_all
  then have "slot_inv ?st1" by (simp add: slot_inv_core)
  then have "holds (\<lambda>r. slot_inv (snd r) \<and> same_cfg ?st1 (snd r) \<and> queries (snd r) = queries ?st1)
               (radius_client_send e qp ?st1)"
    by (rule send_inv)
  then show "holds (\<lambda>r. slot_inv (snd r) \<and> same_cfg st (snd r)) (radius_client_send e qp ?st1)"
    by (rule holds_weaken) (simp add: same_cfg_def)
next
  fix q x a b
  assume q: "deref (queries st) qp = Inr q"
  have "slot_inv (st\<lparr>queries := store (queries st) qp (q\<lparr>q_buf := b\<rparr>)\<rparr>)"
    using inv q by (rule slot_inv_store_query) simp_all
  then show "holds (\<lambda>r. slot_inv (snd r) \<and> same_cfg st (snd r))
               (Inr (Some a, st\<lparr>queries := store (queries st) qp (q\<lparr>q_buf := b\<rparr>)\<rparr>))"
    by simp
qed

subsection \<open>Slot search\<close>

lemma probe_Some:
  "probe tmr i hi = Inr (Some j) \<Longrightarrow>
   i \<le> j \<and> j < hi \<and> j < length tmr \<and> ident (tmr ! j) = None"
proof (induction tmr i hi rule: probe.induct)
  case (1 tmr i hi)
  show ?case
  proof (cases "i < hi \<and> i < length tmr \<and> ident (tmr ! i) \<noteq> None")
    case True
    then have "probe tmr i hi = probe tmr (Suc i) hi"
      by (subst probe.simps) auto
    then have "probe tmr (Suc i) hi = Inr (Some j)" using "1.prems" by simp
    with "1.IH" True have "Suc i \<le> j \<and> j < hi \<and> j < length tmr \<and> ident (tmr ! j) = None"
      by auto
    then show ?thesis by simp
  next
    case False
    then show ?thesis
      using "1.prems" by (subst (asm) probe.simps) (auto split: if_splits)
  qed
qed

lemma skt_find_slot_Some:
  assumes "skt_find_slot q sk = Inr (Some i)"
  shows "(if query_id_any q then i else query_id q) < length (queries_tmr sk)
         \<and> ident (queries_tmr sk ! (if query_id_any q then i else query_id q)) = None"
proof (cases "query_id_any q")
  case False
  then show ?thesis
    using assms by (auto simp: skt_find_slot_def index_def split: if_splits)
next
  case True
  then have "probe (queries_tmr sk) (skt_queries_index sk) RADIUS_PKT_HDR_ID_MAX_COUNT = Inr (Some i)
             \<or> probe (queries_tmr sk) 0 (skt_queries_index sk) = Inr (Some i)"
    using assms
    by (auto simp: skt_find_slot_def bindF_Inr_iff split: if_splits option.splits)
  then show ?thesis using True probe_Some by auto
qed

lemma find_slot_Some:
  "find_slot h q xs = Inr (Some (sp, i)) \<Longrightarrow>
   Some sp \<in> set xs \<and> (\<exists>sk. deref h sp = Inr sk \<and> skt_find_slot q sk = Inr (Some i))"
proof (induction xs)
  case Nil
  then show ?case by simp
next
  case (Cons x xs)
  from Cons.prems obtain sp0 where x: "x = Some sp0"
    by (cases x) simp_all
  from Cons.prems x obtain sk0 where sk0: "deref h sp0 = Inr sk0"
    by (cases "deref h sp0") simp_all
  from Cons.prems x sk0 obtain r where r: "skt_find_slot q sk0 = Inr r"
    by (cases "skt_find_slot q sk0") simp_all
  show ?case
  proof (cases r)
    case None
    then have "find_slot h q xs = Inr (Some (sp, i))"
      using Cons.prems x sk0 r by simp
    with Cons.IH show ?thesis by auto
  next
    case (Some j)
    then have "sp = sp0" "i = j" using Cons.prems x sk0 r by simp_all
    then show ?thesis using x sk0 r Some by simp
  qed
qed

subsection \<open>Attaching a query\<close>

lemma link_query_run:
  fixes e qp sp qid sv st q sk pid
  defines "j \<equiv> (if query_id_any q then qid else query_id q)"
    and "q1 \<equiv> (if query_id_any q
                then q\<lparr>query_id := qid,
                       q_buf := (q_buf q)\<lparr>data := (data (q_buf q))[1 := of_nat qid]\<rparr>\<rparr>
                else q)"
    and "sk1 \<equiv> (if query_id_any q then sk\<lparr>skt_queries_index := qid + 1\<rparr> else sk)"
  defines "sk2 \<equiv> (\<lambda>u. sk1\<lparr>queries_tmr := (queries_tmr sk)[j :=
                          u\<lparr>ident := Some qp,
                            ev_tmr := (if ev_add_rc e (now st) = None
                                       then TMR_ENABLED (retrans_time_init (srv_s sv))
                                       else ev_tmr u)\<rparr>],
                        skt_queries_count := skt_queries_count sk + 1\<rparr>)"
  defines "st' \<equiv> (\<lambda>u. set_skts pid
                     ((get_skts st pid)\<lparr>skts_queries_count := skts_queries_count (get_skts st pid) + 1\<rparr>)
                     (tick (st\<lparr>queries := store (queries st) qp (q1\<lparr>q_skt := Some sp\<rparr>),
                               sockets := store (sockets st) sp (sk2 u)\<rparr>)))"
  assumes q: "deref (queries st) qp = Inr q" and sk: "deref (sockets st) sp = Inr sk"
    and pid: "skt_skts sk = Some pid"
  shows "link_query e qp sp qid sv st =
           bindF (if query_id_any q then index (data (q_buf q)) 1 else Inr 0) (\<lambda>old.
           bindF (index (queries_tmr sk) j) (\<lambda>u. Inr (ev_add_rc e (now st), st' u)))"
  using q sk pid
  by (cases "query_id_any q")
     (simp_all add: link_query_def Let_def j_def q1_def sk1_def sk2_def st'_def)

lemma link_query_inv:
  assumes inv: "slot_inv st"
    and q: "deref (queries st) qp = Inr q" "q_skt q = None"
    and sk: "deref (sockets st) sp = Inr sk"
    and free: "(if query_id_any q then qid else query_id q) < 256 \<Longrightarrow>
               ident (queries_tmr sk ! (if query_id_any q then qid else query_id q)) = None"
  shows "holds (\<lambda>r. slot_inv (snd r) \<and> same_cfg st (snd r)) (link_query e qp sp qid sv st)"
proof -
  from inv have core: "inv_core (queries st, sockets st, get_skts st, thr_sockets_max st)"
    by (simp add: slot_inv_core view_def)
  then have i3: "I3 (queries st, sockets st, get_skts st, thr_sockets_max st)"
    by (simp add: inv_core_def)
  from I3_D [OF i3 sk] obtain pid where
    shape: "length (queries_tmr sk) = 256" "skt_queries_index sk \<le> 256" "skt_skts sk = Some pid"
    by blast
  let ?j = "if query_id_any q then qid else query_id q"
  show ?thesis
    unfolding link_query_run [OF q(1) sk shape(3)]
  proof (intro holds_split)
    fix old u
    assume u: "index (queries_tmr sk) ?j = Inr u"
    then have j: "?j < 256" using shape(1) by (simp add: index_def split: if_splits)
    let ?q' = "(if query_id_any q
                then q\<lparr>query_id := qid,
                       q_buf := (q_buf q)\<lparr>data := (data (q_buf q))[1 := of_nat qid]\<rparr>\<rparr>
                else q)\<lparr>q_skt := Some sp\<rparr>"
    let ?sk' = "(if query_id_any q then sk\<lparr>skt_queries_index := qid + 1\<rparr> else sk)
                 \<lparr>queries_tmr := (queries_tmr sk)[?j :=
                          u\<lparr>ident := Some qp,
                            ev_tmr := (if ev_add_rc e (now st) = None
                                       then TMR_ENABLED (retrans_time_init (srv_s sv))
                                       else ev_tmr u)\<rparr>],
                   skt_queries_count := skt_queries_count sk + 1\<rparr>"
    let ?p' = "(get_skts st pid)\<lparr>skts_queries_count := skts_queries_count (get_skts st pid) + 1\<rparr>"
    let ?st' = "set_skts pid ?p'
                  (tick (st\<lparr>queries := store (queries st) qp ?q',
                            sockets := store (sockets st) sp ?sk'\<rparr>))"
    have "inv_core (store (queries st) qp ?q', store (sockets st) sp ?sk',
                    (get_skts st)(pid := ?p'), thr_sockets_max st)"
      using core q sk shape(3) j free [OF j]
      by (rule inv_attach) (use shape(2) j in \<open>auto\<close>)
    moreover have "view ?st' = (store (queries st) qp ?q', store (sockets st) sp ?sk',
                    (get_skts st)(pid := ?p'), thr_sockets_max st)"
      by (simp add: fun_eq_iff)
    ultimately have "slot_inv ?st'" by (simp only: slot_inv_core)
    then show "holds (\<lambda>r. slot_inv (snd r) \<and> same_cfg st (snd r)) (Inr (ev_add_rc e (now st), ?st'))"
      by simp
  qed
qed

lemma socket_alloc_inv:
  assumes inv: "slot_inv st" and thr: "thread_get_current e = thr_tpt st"
  shows "holds (\<lambda>r. slot_inv (snd r) \<and> same_cfg st (snd r) \<and> queries (snd r) = queries st
                  \<and> (fst r = None \<longrightarrow> fresh_last (skts_of_family family) (snd r)))
           (radius_client_socket_alloc e family st)"
proof -
  let ?pid = "skts_of_family family"
  let ?p = "get_skts st ?pid"
  let ?sp = "length (sockets st)"
  let ?p1 = "?p\<lparr>skt_count := skt_count ?p + 1, skts_skt := (skts_skt ?p)[skt_count ?p := Some ?sp]\<rparr>"
  let ?st1 = "set_skts ?pid ?p1 (tick (st\<lparr>sockets := sockets st @ [Some (new_skt ?pid)]\<rparr>))"
  let ?P = "\<lambda>r. slot_inv (snd r) \<and> same_cfg st (snd r) \<and> queries (snd r) = queries st
                  \<and> (fst r = None \<longrightarrow> fresh_last ?pid (snd r))"
  from inv have core: "inv_core (queries st, sockets st, get_skts st, thr_sockets_max st)"
    by (simp add: slot_inv_core view_def)
  have new: "slot_inv ?st1 \<and> same_cfg st ?st1 \<and> queries ?st1 = queries st \<and> fresh_last ?pid ?st1"
    and free: "holds (\<lambda>st2. ?P (Some err, st2)) (radius_client_socket_free e ?sp ?st1)"
    if room: "skt_count ?p < length (skts_skt ?p)" for err
  proof -
    have "inv_core (queries st, sockets st @ [Some (new_skt ?pid)], (get_skts st)(?pid := ?p1),
                    thr_sockets_max st)"
      using core room by (rule inv_new_skt)
    moreover have "view ?st1 = (queries st, sockets st @ [Some (new_skt ?pid)], (get_skts st)(?pid := ?p1),
                    thr_sockets_max st)"
      by (simp add: fun_eq_iff)
    ultimately have inv1: "slot_inv ?st1" by (simp only: slot_inv_core)
    have d1: "deref (sockets ?st1) ?sp = Inr (new_skt ?pid)" by simp
    have pos: "0 < skt_count (get_skts ?st1 ?pid)" by simp
    have lst: "skts_skt (get_skts ?st1 ?pid) ! (skt_count (get_skts ?st1 ?pid) - 1) = Some ?sp"
      using room by simp
    show "slot_inv ?st1 \<and> same_cfg st ?st1 \<and> queries ?st1 = queries st \<and> fresh_last ?pid ?st1"
      using inv1 room by (simp add: fresh_last_def)
    have "holds (\<lambda>st'. slot_inv st' \<and> same_cfg ?st1 st' \<and> queries st' = queries ?st1)
            (radius_client_socket_free e ?sp ?st1)"
      using inv1 d1 _ _ pos lst by (rule socket_free_last_inv) (simp_all add: new_skt_def)
    then show "holds (\<lambda>st2. ?P (Some err, st2)) (radius_client_socket_free e ?sp ?st1)"
      by (rule holds_weaken) (simp add: same_cfg_def)
  qed
  show ?thesis
    unfolding radius_client_socket_alloc_def Let_def
  proof (intro holds_if holds_case_option)
    fix err
    assume "\<not> length (skts_skt ?p) \<le> skt_count ?p"
    then have room: "skt_count ?p < length (skts_skt ?p)" by simp
    show "holds ?P (bindF (radius_client_socket_free e ?sp ?st1) (\<lambda>st2. Inr (Some err, st2)))"
      by (rule holds_bindF [OF free [OF room, of err]]) simp
  next
    assume "\<not> length (skts_skt ?p) \<le> skt_count ?p"
    then have room: "skt_count ?p < length (skts_skt ?p)" by simp
    show "holds ?P (Inr (None, ?st1))"
      using new [OF room] by simp
  qed (use inv thr in simp_all)
qed

lemma alloc_slot_inv:
  assumes inv: "slot_inv st" and thr: "thread_get_current e = thr_tpt st"
    and det: "\<And>q. deref (queries st) qp = Inr q \<Longrightarrow> q_skt q = None"
  shows "holds (\<lambda>r. slot_inv (snd r) \<and> same_cfg st (snd r)) (alloc_slot e qp sv st)"
proof -
  let ?P = "\<lambda>r. slot_inv (snd r) \<and> same_cfg st (snd r)"
  let ?fam = "ss_family (addr (srv_s sv))"
  let ?pid = "skts_of_family ?fam"
  from inv have core: "inv_core (queries st, sockets st, get_skts st, thr_sockets_max st)"
    by (simp add: slot_inv_core view_def)
  show ?thesis
    unfolding alloc_slot_def Let_def
  proof (intro holds_bindF_any holds_if holds_case_option holds_case_prod)
    fix q r y sp qid
    assume q: "deref (queries st) qp = Inr q"
      and f: "find_slot (sockets st) q (take (skt_count (get_skts st ?pid)) (skts_skt (get_skts st ?pid))) = Inr r"
         "r = Some y" "y = (sp, qid)"
    from find_slot_Some [of "sockets st" q _ sp qid] f obtain sk where
      sk: "deref (sockets st) sp = Inr sk" "skt_find_slot q sk = Inr (Some qid)"
      by auto
    show "holds ?P (link_query e qp sp qid sv st)"
      using inv q det [OF q] sk(1) skt_find_slot_Some [OF sk(2)] by (intro link_query_inv) auto
  next
    fix q x error st1 p sp sk
    assume q: "deref (queries st) qp = Inr q"
      and a: "radius_client_socket_alloc e ?fam st = Inr x" "x = (error, st1)" "\<not> error \<noteq> None"
      and l: "index (skts_skt (get_skts st1 ?pid)) (size_t_dec (skt_count (get_skts st1 ?pid))) = Inr p"
         "p = Some sp" "deref (sockets st1) sp = Inr sk"
    from holdsD [OF socket_alloc_inv [OF inv thr, of ?fam] a(1)] a(2,3)
    have post: "slot_inv st1" "same_cfg st st1" "queries st1 = queries st" "fresh_last ?pid st1"
      by simp_all
    from post(4) l have new: "sk = new_skt ?pid"
      by (auto simp: fresh_last_def Let_def index_def size_t_dec_def split: if_splits)
    have "holds (\<lambda>r. slot_inv (snd r) \<and> same_cfg st1 (snd r))
            (link_query e qp sp (if query_id_any q then skt_queries_index sk else 0) sv st1)"
      using post(1) _ det [OF q] l(3)
    proof (rule link_query_inv)
      show "deref (queries st1) qp = Inr q" using q post(3) by simp
      let ?j = "if query_id_any q then if query_id_any q then skt_queries_index sk else 0 else query_id q"
      assume "?j < 256"
      then show "ident (queries_tmr sk ! ?j) = None"
        by (simp add: new new_skt_def empty_udata_def RADIUS_PKT_HDR_ID_MAX_COUNT_def)
    qed
    then show "holds ?P (link_query e qp sp (if query_id_any q then skt_queries_index sk else 0) sv st1)"
      using post(2) by (auto elim!: holds_weaken intro: same_cfg_trans)
  next
    fix x error st1
    assume a: "radius_client_socket_alloc e ?fam st = Inr x" "x = (error, st1)"
    from holdsD [OF socket_alloc_inv [OF inv thr, of ?fam] a(1)] a(2)
    show "holds ?P (Inr (error, st1))" by simp
  qed (use inv in simp_all)
qed

lemma send_new_inv:
  assumes inv: "slot_inv st"
  shows "holds (\<lambda>r. slot_inv (snd r) \<and> same_cfg st (snd r)) (radius_client_send_new e qp st)"
proof -
  let ?P = "\<lambda>r. slot_inv (snd r) \<and> same_cfg st (snd r)"
  show ?thesis
    unfolding radius_client_send_new_def Let_def
  proof (intro holds_bindF_any holds_if holds_case_prod)
    fix q idx
    assume q: "deref (queries st) qp = Inr q"
    let ?st1 = "st\<lparr>queries := store (queries st) qp (q\<lparr>cur_srv_idx := idx\<rparr>)\<rparr>"
    have inv1: "slot_inv ?st1"
      using inv q by (rule slot_inv_store_query) simp_all
    have qlen: "qp < length (queries st)" using q by (rule deref_Inr_length)
    {
      show "holds ?P (Inr (Some ECONNREFUSED, ?st1))"
        using inv1 by simp
    next
      fix sv
      have "holds (\<lambda>r. slot_inv (snd r) \<and> same_cfg ?st1 (snd r)) (sign_and_send e qp sv ?st1)"
        using inv1 by (rule sign_and_send_inv)
      then show "holds ?P (sign_and_send e qp sv ?st1)"
        by (rule holds_weaken) (simp add: same_cfg_def)
    next
      fix sv st2 x error st3
      assume thr: "\<not> thread_get_current e \<noteq> thr_tpt st"
        and u: "radius_client_query_unlink_skt e qp ?st1 = Inr st2"
        and a: "alloc_slot e qp sv st2 = Inr x" "x = (error, st3)"
      have d1: "deref (queries ?st1) qp = Inr (q\<lparr>cur_srv_idx := idx\<rparr>)"
        using qlen by simp
      from holdsD [OF unlink_skt_inv [OF inv1 d1, where e = e] u]
      have post2: "slot_inv st2" "same_cfg ?st1 st2"
        "queries st2 = store (queries ?st1) qp (q\<lparr>cur_srv_idx := idx, q_skt := None\<rparr>)"
        by simp_all
      have thr2: "thread_get_current e = thr_tpt st2"
        using thr post2(2) by (simp add: same_cfg_def)
      have det: "q_skt q' = None" if "deref (queries st2) qp = Inr q'" for q'
        using that post2(3) qlen by auto
      from holdsD [OF alloc_slot_inv [OF post2(1) thr2 det, where sv = sv] a(1)] a(2)
      have post3: "slot_inv st3" "same_cfg st2 st3"
        by simp_all
      have cfg3: "same_cfg st st3"
        using post2(2) post3(2) by (simp add: same_cfg_def)
      show "holds ?P (Inr (error, st3))"
        using post3(1) cfg3 by simp
      have "holds (\<lambda>r. slot_inv (snd r) \<and> same_cfg st3 (snd r)) (sign_and_send e qp sv st3)"
        using post3(1) by (rule sign_and_send_inv)
      then show "holds ?P (sign_and_send e qp sv st3)"
        using cfg3 by (auto elim!: holds_weaken intro: same_cfg_trans)
    }
  qed (use inv in simp_all)
qed

subsection \<open>The callbacks\<close>

lemma failover_loop_inv:
  "slot_inv st \<Longrightarrow>
   holds (\<lambda>r. slot_inv (snd r) \<and> same_cfg st (snd r)) (failover_loop n e qp error st)"
proof (induction n arbitrary: error st)
  case 0
  then show ?case
    by (cases "deref (queries st) qp") simp_all
next
  case (Suc n)
  let ?P = "\<lambda>r. slot_inv (snd r) \<and> same_cfg st (snd r)"
  show ?case
    unfolding failover_loop.simps
  proof (intro holds_bindF_any holds_if holds_case_prod)
    fix q x error1 st1
    assume q: "deref (queries st) qp = Inr q"
    let ?st0 = "st\<lparr>queries := store (queries st) qp (q\<lparr>cur_srv_idx := cur_srv_idx q + 1\<rparr>)\<rparr>"
    assume a: "radius_client_send_new e qp ?st0 = Inr x" "x = (error1, st1)"
    have "slot_inv ?st0"
      using Suc.prems q by (rule slot_inv_store_query) simp_all
    from holdsD [OF send_new_inv [OF this] a(1)] a(2)
    have post: "slot_inv st1" "same_cfg st st1" by simp_all
    from Suc.IH [OF post(1), of error1]
    show "holds ?P (failover_loop n e qp error1 st1)"
      using post(2) by (auto elim!: holds_weaken intro: same_cfg_trans)
  qed (use Suc.prems in simp_all)
qed

lemma query_tpt_msg_cb_inv:
  assumes inv: "slot_inv st"
  shows "holds (\<lambda>st'. slot_inv st' \<and> same_cfg st st') (radius_client_query_tpt_msg_cb e qp st)"
  unfolding radius_client_query_tpt_msg_cb_def
proof (intro holds_bindF_any holds_if holds_case_prod)
  fix x error st1
  assume a: "radius_client_send_new e qp st = Inr x" "x = (error, st1)"
  from holdsD [OF send_new_inv [OF inv] a(1)] a(2)
  have post: "slot_inv st1" "same_cfg st st1" by simp_all
  show "holds (\<lambda>st'. slot_inv st' \<and> same_cfg st st') (Inr st1)"
    using post by simp
  show "holds (\<lambda>st'. slot_inv st' \<and> same_cfg st st') (radius_client_query_done e qp None error st1)"
    using query_done_inv [OF post(1), of e qp None error] post(2)
    by (auto elim!: holds_weaken intro: same_cfg_trans)
qed (use inv in simp_all)

lemma slot_inv_skt_buf:
  assumes "slot_inv st" "deref (sockets st) sp = Inr sk"
  shows "slot_inv (st\<lparr>sockets := store (sockets st) sp (sk\<lparr>skt_buf := b\<rparr>)\<rparr>)"
proof -
  have "inv_core (queries st, store (sockets st) sp (sk\<lparr>skt_buf := b\<rparr>), get_skts st, thr_sockets_max st)"
    using assms by (intro inv_skt_timer [where sk = sk]) (simp_all add: slot_inv_core view_def)
  then show ?thesis
    by (simp add: slot_inv_core view_def)
qed

lemma rcv_next_inv:
  assumes "slot_inv st"
  shows "holds (\<lambda>st'. slot_inv st' \<and> same_cfg st st') (rcv_next sp st)"
  unfolding rcv_next_def
  by (intro holds_bindF_any) (use assms in \<open>simp add: slot_inv_skt_buf\<close>)

lemma recv_cb_inv:
  assumes inv: "slot_inv st"
  shows "holds (\<lambda>st'. slot_inv st' \<and> same_cfg st st')
           (radius_client_recv_cb e sp error from_addr st)"
  unfolding radius_client_recv_cb_def
proof (rule holds_bindF_any, rule holds_bindF [where Q = "\<lambda>st'. slot_inv st' \<and> same_cfg st st'"])
  fix sk
  show "holds (\<lambda>st'. slot_inv st' \<and> same_cfg st st')
     (if thread_get_current e \<noteq> thr_tpt st then Inr st
      else if error \<noteq> None then Inr st
      else if pkt_chk e (data (skt_buf sk)) (used (skt_buf sk)) \<noteq> None then Inr st
      else
        bindF (index (data (skt_buf sk)) 1) (\<lambda>pkt_id.
        bindF (index (queries_tmr sk) (unat pkt_id)) (\<lambda>u.
          case ident u of
            None \<Rightarrow> Inr st
          | Some qp \<Rightarrow>
              bindF (deref (queries st) qp) (\<lambda>q.
              bindF (index (srv st) (cur_srv_idx q)) (\<lambda>sv.
                if sa_addr_port_is_eq from_addr (addr (srv_s sv)) = 0 then Inr st
                else if pkt_verify e (data (skt_buf sk)) (shared_secret (srv_s sv))
                          (data (q_buf q)) \<noteq> 0
                then Inr st
                else radius_client_query_done e qp (Some sp) None st)))))"
    by (intro holds_bindF_any holds_if holds_case_option query_done_inv) (use inv in simp_all)
next
  fix st1
  assume "slot_inv st1 \<and> same_cfg st st1"
  then show "holds (\<lambda>st'. slot_inv st' \<and> same_cfg st st') (rcv_next sp st1)"
    using rcv_next_inv [of st1 sp] by (auto elim!: holds_weaken intro: same_cfg_trans)
qed

lemma timeout_cb_inv:
  assumes inv: "slot_inv st"
  shows "holds (\<lambda>st'. slot_inv st' \<and> same_cfg st st') (radius_client_query_timeout_cb e sp i st)"
proof -
  let ?P = "\<lambda>st'. slot_inv st' \<and> same_cfg st st'"
  show ?thesis
    unfolding radius_client_query_timeout_cb_def Let_def
  proof (intro holds_bindF_any holds_if holds_case_option holds_case_prod)
    fix sk
    assume sk: "deref (sockets st) sp = Inr sk"
    let ?st0 = "set_tmr sp sk i TMR_DISABLED st"
    have inv0: "slot_inv ?st0" using inv sk by (rule slot_inv_set_tmr)
    {
      show "holds ?P (Inr ?st0)" using inv0 by simp
    next
      show "holds ?P (Inr ?st0)" using inv0 by simp
    next
      fix qp q sv q1 resend
      assume q: "deref (queries ?st0) qp = Inr q"
        and t: "timeout_retrans (srv_s sv) (rnd_tm e (now ?st0) (retrans_time q))
                  (rnd_tm e (now ?st0 + 1) (retrans_time_max (srv_s sv))) q = (q1, resend)"
      let ?st1 = "?st0\<lparr>queries := store (queries ?st0) qp q1, now := now ?st0 + 2\<rparr>"
      have same: "q_skt q1 = q_skt q" "query_id q1 = query_id q"
        using t by (auto simp: timeout_retrans_def Let_def split: if_splits)
      have "slot_inv (?st0\<lparr>queries := store (queries ?st0) qp q1\<rparr>)"
        using inv0 q same by (rule slot_inv_store_query)
      then have inv1: "slot_inv ?st1" by (simp add: slot_inv_core)
      have cfg1: "same_cfg st ?st1" by simp
      {
        fix y error st3
        assume r: "(if resend
                    then bindF (radius_client_send e qp ?st1)
                           (\<lambda>(error, st2). failover_loop (cli_srv_count st2) e qp error st2)
                    else Inr (Some ETIMEDOUT, ?st1)) = Inr y" "y = (error, st3)"
        have "holds (\<lambda>r. slot_inv (snd r) \<and> same_cfg st (snd r))
                (if resend
                 then bindF (radius_client_send e qp ?st1)
                        (\<lambda>(error, st2). failover_loop (cli_srv_count st2) e qp error st2)
                 else Inr (Some ETIMEDOUT, ?st1))"
        proof (intro holds_if holds_bindF [OF send_inv [OF inv1]] holds_case_prod)
          fix z :: "errno option \<times> radius_cli" and a :: "errno option" and b :: radius_cli
          assume "slot_inv (snd z) \<and> same_cfg ?st1 (snd z) \<and> queries (snd z) = queries ?st1"
            "z = (a, b)"
          then have b: "slot_inv b" "same_cfg st b" by simp_all
          from failover_loop_inv [OF b(1), of "cli_srv_count b" e qp a]
          show "holds (\<lambda>r. slot_inv (snd r) \<and> same_cfg st (snd r))
                  (failover_loop (cli_srv_count b) e qp a b)"
            using b(2) by (auto elim!: holds_weaken intro: same_cfg_trans)
        qed (use inv1 in simp)
        from holdsD [OF this r(1)] r(2)
        have post: "slot_inv st3" "same_cfg st st3" by simp_all
        show "holds ?P (Inr st3)" using post by simp
        show "holds ?P (radius_client_query_done e qp None error st3)"
          using query_done_inv [OF post(1), of e qp None error] post(2)
          by (auto elim!: holds_weaken intro: same_cfg_trans)
      }
    }
  qed simp_all
qed

text \<open>
  The steps of a query's life keep the slot invariant, whenever they return:
  \<^verbatim>\<open>radius_client_query_unlink_skt\<close> (detach), \<^verbatim>\<open>radius_client_send_new\<close> (detach and
  attach), \<^verbatim>\<open>radius_client_query_done\<close> (detach and complete), and the three handlers
  of the worker that call them: the message handler, the timer handler and the receiver.
\<close>

lemma slot_inv_kept_by_query_steps:
  assumes "slot_inv st"
  shows "(\<forall>st'. radius_client_query_unlink_skt e qp st = Inr st' \<longrightarrow> slot_inv st')
       \<and> (\<forall>rc st'. radius_client_send_new e qp st = Inr (rc, st') \<longrightarrow> slot_inv st')
       \<and> (\<forall>st'. radius_client_query_done e qp buf error st = Inr st' \<longrightarrow> slot_inv st')
       \<and> (\<forall>st'. radius_client_query_tpt_msg_cb e qp st = Inr st' \<longrightarrow> slot_inv st')
       \<and> (\<forall>st'. radius_client_query_timeout_cb e sp i st = Inr st' \<longrightarrow> slot_inv st')
       \<and> (\<forall>st'. radius_client_recv_cb e sp rerr from_addr st = Inr st' \<longrightarrow> slot_inv st')"
proof (intro conjI allI impI)
  fix st'
  assume u: "radius_client_query_unlink_skt e qp st = Inr st'"
  then obtain q where "deref (queries st) qp = Inr q"
    by (cases "deref (queries st) qp") (simp_all add: radius_client_query_unlink_skt_def)
  from holdsD [OF unlink_skt_inv [OF assms this] u] show "slot_inv st'" by simp
next
  fix rc st'
  assume "radius_client_send_new e qp st = Inr (rc, st')"
  from holdsD [OF send_new_inv [OF assms] this] show "slot_inv st'" by simp
next
  fix st'
  assume "radius_client_query_done e qp buf error st = Inr st'"
  from holdsD [OF query_done_inv [OF assms] this] show "slot_inv st'" by simp
next
  fix st'
  assume "radius_client_query_tpt_msg_cb e qp st = Inr st'"
  from holdsD [OF query_tpt_msg_cb_inv [OF assms] this] show "slot_inv st'" by simp
next
  fix st'
  assume "radius_client_query_timeout_cb e sp i st = Inr st'"
  from holdsD [OF timeout_cb_inv [OF assms] this] show "slot_inv st'" by simp
next
  fix st'
  assume "radius_client_recv_cb e sp rerr from_addr st = Inr st'"
  from holdsD [OF recv_cb_inv [OF assms] this] show "slot_inv st'" by simp
qed

lemmas slot_inv_defs = slot_inv_def query_linked_def slot_linked_def skt_counted_def
  skts_counted_def skts_list_def skt_occupied_def occupied_def

subsection \<open>Slot allocation with an automatic packet ID\<close>

lemma find_app:
  "List.find P (xs @ ys) = (case List.find P xs of None \<Rightarrow> List.find P ys | Some x \<Rightarrow> Some x)"
  by (induction xs) simp_all

lemma probe_find:
  "hi \<le> length tmr \<Longrightarrow>
   probe tmr i hi = Inr (List.find (\<lambda>j. ident (tmr ! j) = None) [i..<hi])"
proof (induction tmr i hi rule: probe.induct)
  case (1 tmr i hi)
  show ?case
  proof (cases "i < hi")
    case False
    then show ?thesis by (subst probe.simps) simp
  next
    case True
    then have len: "\<not> length tmr \<le> i" using "1.prems" by simp
    have upt: "[i..<hi] = i # [Suc i..<hi]" using True by (rule upt_conv_Cons)
    show ?thesis
    proof (cases "ident (tmr ! i) = None")
      case free: True
      then show ?thesis
        using True len by (subst probe.simps) (simp add: upt)
    next
      case occ: False
      then have "probe tmr i hi = probe tmr (Suc i) hi"
        using True len by (subst probe.simps) simp
      also have "\<dots> = Inr (List.find (\<lambda>j. ident (tmr ! j) = None) [Suc i..<hi])"
        using "1.IH" True len occ "1.prems" by simp
      finally show ?thesis using occ by (auto simp: upt)
    qed
  qed
qed

lemma skt_find_slot_auto:
  assumes "query_id_any q" "length (queries_tmr sk) = 256" "skt_queries_index sk \<le> 256"
    "skt_queries_count sk \<le> 256"
  shows "skt_find_slot q sk = Inr (spec_auto_slot sk)"
proof (cases "skt_queries_count sk = 256")
  case True
  then show ?thesis
    using assms(1) by (simp add: skt_find_slot_def spec_auto_slot_def RADIUS_PKT_HDR_ID_MAX_COUNT_def)
next
  case False
  then have lt: "skt_queries_count sk < 256" using assms(4) by simp
  have p1: "probe (queries_tmr sk) (skt_queries_index sk) 256
            = Inr (List.find (\<lambda>j. ident (queries_tmr sk ! j) = None) [skt_queries_index sk..<256])"
    using assms(2) by (intro probe_find) simp
  have p2: "probe (queries_tmr sk) 0 (skt_queries_index sk)
            = Inr (List.find (\<lambda>j. ident (queries_tmr sk ! j) = None) [0..<skt_queries_index sk])"
    using assms(2,3) by (intro probe_find) simp
  show ?thesis
    using assms(1) False lt
    by (simp add: skt_find_slot_def spec_auto_slot_def spec_probe_order_def
        RADIUS_PKT_HDR_ID_MAX_COUNT_def p1 p2 find_app split: option.splits)
qed

lemma find_slot_auto:
  assumes "query_id_any q"
    and "\<forall>x \<in> set xs. \<exists>sp sk. x = Some sp \<and> deref h sp = Inr sk
           \<and> length (queries_tmr sk) = 256 \<and> skt_queries_index sk \<le> 256
           \<and> skt_queries_count sk \<le> 256"
  shows "find_slot h q xs = Inr (spec_auto_find h xs)"
  using assms(2)
proof (induction xs)
  case Nil
  then show ?case by simp
next
  case (Cons x xs)
  then obtain sp sk where x: "x = Some sp" "deref h sp = Inr sk"
    "length (queries_tmr sk) = 256" "skt_queries_index sk \<le> 256" "skt_queries_count sk \<le> 256"
    by auto
  have "skt_find_slot q sk = Inr (spec_auto_slot sk)"
    using assms(1) x(3-5) by (rule skt_find_slot_auto)
  then show ?case
    using Cons x(1,2) by (simp split: option.splits)
qed

lemma spec_auto_find_Some:
  "spec_auto_find h xs = Some (sp, i) \<Longrightarrow>
   Some sp \<in> set xs \<and> (\<exists>sk. deref h sp = Inr sk \<and> spec_auto_slot sk = Some i)"
  by (induction xs) (auto split: option.splits sum.splits)

lemma spec_auto_slot_Some:
  assumes "spec_auto_slot sk = Some i" "skt_queries_index sk \<le> 256"
  shows "i < 256 \<and> ident (queries_tmr sk ! i) = None"
proof -
  from assms(1) have f: "List.find (\<lambda>i. ident (queries_tmr sk ! i) = None)
                   (spec_probe_order (skt_queries_index sk)) = Some i"
    by (simp add: spec_auto_slot_def split: if_splits)
  then have "i \<in> set (spec_probe_order (skt_queries_index sk))" "ident (queries_tmr sk ! i) = None"
    by (auto simp: find_Some_iff)
  then show ?thesis
    using assms(2) by (auto simp: spec_probe_order_def)
qed

lemma slot_inv_shape:
  assumes "slot_inv st" "x \<in> set (skts_list st pid)"
  shows "\<exists>sp sk. x = Some sp \<and> deref (sockets st) sp = Inr sk
           \<and> length (queries_tmr sk) = 256 \<and> skt_queries_index sk \<le> 256
           \<and> skt_queries_count sk \<le> 256"
proof -
  from assms(1) have core: "inv_core (queries st, sockets st, get_skts st, thr_sockets_max st)"
    by (simp add: slot_inv_core view_def)
  then have i3: "I3 (queries st, sockets st, get_skts st, thr_sockets_max st)"
    and i4: "I4 (queries st, sockets st, get_skts st, thr_sockets_max st)"
    by (simp_all add: inv_core_def)
  from I4_D [OF i4, of pid] assms(2) obtain sp sk where
    x: "x = Some sp" "deref (sockets st) sp = Inr sk"
    by (auto simp: plist_def skts_list_def)
  note s = I3_D [OF i3 x(2)]
  have "occupied sk \<le> length (queries_tmr sk)"
    unfolding occupied_def by (rule length_filter_le)
  then show ?thesis using x s by auto
qed

text \<open>
  C7. With an automatic packet ID and the slot invariant, the socket loop of
  \<^verbatim>\<open>radius_client_send_new\<close> computes \<open>spec_auto_find\<close>: the first socket of the pool, in
  the order of the pool's array, whose counter is below 256 and that has a free slot, with
  the first free slot in the order hint, ..., 255, 0, ..., hint - 1. When it finds slot
  \<open>i\<close> of socket \<open>sp\<close>, \<open>alloc_slot\<close> returns with the query in that slot, the socket's hint
  at \<open>i + 1\<close>, the query's packet ID \<open>i\<close>, and byte 1 of the caller's buffer overwritten
  with \<open>i\<close> (the buffer must hold at least the two bytes the code writes into).
\<close>

theorem auto_id_slot_allocation:
  fixes sv :: radius_cli_srv
  defines "xs \<equiv> \<lambda>st. skts_list st (skts_of_family (ss_family (addr (srv_s sv))))"
  assumes inv: "slot_inv st"
    and q: "deref (queries st) qp = Inr q" "query_id_any q" "1 < length (data (q_buf q))"
  shows "find_slot (sockets st) q (xs st) = Inr (spec_auto_find (sockets st) (xs st))
       \<and> (\<forall>sp i. spec_auto_find (sockets st) (xs st) = Some (sp, i) \<longrightarrow>
            (\<exists>rc st' sk' q'. alloc_slot e qp sv st = Inr (rc, st')
               \<and> deref (sockets st') sp = Inr sk' \<and> skt_queries_index sk' = i + 1
               \<and> ident (queries_tmr sk' ! i) = Some qp
               \<and> deref (queries st') qp = Inr q' \<and> q_skt q' = Some sp \<and> query_id q' = i
               \<and> data (q_buf q') = (data (q_buf q))[1 := of_nat i]
               \<and> unat (data (q_buf q') ! 1) = i))"
proof (intro conjI allI impI)
  let ?pid = "skts_of_family (ss_family (addr (srv_s sv)))"
  from inv have core: "inv_core (queries st, sockets st, get_skts st, thr_sockets_max st)"
    by (simp add: slot_inv_core view_def)
  then have i3: "I3 (queries st, sockets st, get_skts st, thr_sockets_max st)"
    and i4: "I4 (queries st, sockets st, get_skts st, thr_sockets_max st)"
    by (simp_all add: inv_core_def)
  show fs: "find_slot (sockets st) q (xs st) = Inr (spec_auto_find (sockets st) (xs st))"
    unfolding xs_def using q(2) slot_inv_shape [OF inv] by (intro find_slot_auto) blast+
  fix sp i
  assume found: "spec_auto_find (sockets st) (xs st) = Some (sp, i)"
  from spec_auto_find_Some [OF found] obtain sk where
    sk: "deref (sockets st) sp = Inr sk" "spec_auto_slot sk = Some i"
    by blast
  from I3_D [OF i3 sk(1)] obtain pid where
    shape: "length (queries_tmr sk) = 256" "skt_queries_index sk \<le> 256" "skt_skts sk = Some pid"
    by blast
  from spec_auto_slot_Some [OF sk(2) shape(2)] have i: "i < 256" by simp
  have len: "\<not> length (skts_skt (get_skts st ?pid)) < skt_count (get_skts st ?pid)"
    using I4_D [OF i4, of ?pid] by simp
  have qlen: "qp < length (queries st)" and slen: "sp < length (sockets st)"
    using q(1) sk(1) by (auto dest: deref_Inr_length)
  have "alloc_slot e qp sv st = link_query e qp sp i sv st"
    using q(1) len fs found by (simp add: alloc_slot_def Let_def xs_def skts_list_def)
  also have "\<dots> = bindF (if query_id_any q then index (data (q_buf q)) 1 else Inr 0) (\<lambda>old.
           bindF (index (queries_tmr sk) (if query_id_any q then i else query_id q)) (\<lambda>u.
             Inr (ev_add_rc e (now st),
               set_skts pid
                 ((get_skts st pid)\<lparr>skts_queries_count := skts_queries_count (get_skts st pid) + 1\<rparr>)
                 (tick (st\<lparr>queries := store (queries st) qp
                              ((if query_id_any q
                                then q\<lparr>query_id := i,
                                       q_buf := (q_buf q)\<lparr>data := (data (q_buf q))[1 := of_nat i]\<rparr>\<rparr>
                                else q)\<lparr>q_skt := Some sp\<rparr>),
                           sockets := store (sockets st) sp
                              ((if query_id_any q then sk\<lparr>skt_queries_index := i + 1\<rparr> else sk)
                               \<lparr>queries_tmr := (queries_tmr sk)[(if query_id_any q then i else query_id q) :=
                                    u\<lparr>ident := Some qp,
                                      ev_tmr := (if ev_add_rc e (now st) = None
                                                 then TMR_ENABLED (retrans_time_init (srv_s sv))
                                                 else ev_tmr u)\<rparr>],
                                 skt_queries_count := skt_queries_count sk + 1\<rparr>)\<rparr>)))))"
    by (rule link_query_run [OF q(1) sk(1) shape(3)])
  finally have run: "alloc_slot e qp sv st =
      Inr (ev_add_rc e (now st),
        set_skts pid
          ((get_skts st pid)\<lparr>skts_queries_count := skts_queries_count (get_skts st pid) + 1\<rparr>)
          (tick (st\<lparr>queries := store (queries st) qp
                       (q\<lparr>query_id := i,
                          q_buf := (q_buf q)\<lparr>data := (data (q_buf q))[1 := of_nat i]\<rparr>,
                          q_skt := Some sp\<rparr>),
                    sockets := store (sockets st) sp
                       (sk\<lparr>skt_queries_index := i + 1,
                           queries_tmr := (queries_tmr sk)[i :=
                             (queries_tmr sk ! i)\<lparr>ident := Some qp,
                               ev_tmr := (if ev_add_rc e (now st) = None
                                          then TMR_ENABLED (retrans_time_init (srv_s sv))
                                          else ev_tmr (queries_tmr sk ! i))\<rparr>],
                           skt_queries_count := skt_queries_count sk + 1\<rparr>)\<rparr>)))"
    using q(2,3) i shape(1) by (simp add: index_def)
  have byte: "unat (of_nat i :: 8 word) = i"
    using i by (simp add: unat_of_nat take_bit_nat_eq_self)
  show "\<exists>rc st' sk' q'. alloc_slot e qp sv st = Inr (rc, st')
               \<and> deref (sockets st') sp = Inr sk' \<and> skt_queries_index sk' = i + 1
               \<and> ident (queries_tmr sk' ! i) = Some qp
               \<and> deref (queries st') qp = Inr q' \<and> q_skt q' = Some sp \<and> query_id q' = i
               \<and> data (q_buf q') = (data (q_buf q))[1 := of_nat i]
               \<and> unat (data (q_buf q') ! 1) = i"
    unfolding run using qlen slen i shape(1) q(3) byte by simp
qed

lemma ex_attached_occupied:
  "length (filter (\<lambda>u. ident u \<noteq> None)
     ((replicate 256 empty_udata)
        [255 := \<lparr>ident = Some 0, ev_tmr = TMR_ENABLED 250\<rparr>,
         0 := \<lparr>ident = Some 1, ev_tmr = TMR_ENABLED 250\<rparr>])) = 2"
proof -
  let ?P = "\<lambda>u. ident u \<noteq> None"
  let ?a = "\<lparr>ident = Some 0, ev_tmr = TMR_ENABLED 250\<rparr>"
  let ?b = "\<lparr>ident = Some 1, ev_tmr = TMR_ENABLED 250\<rparr>"
  have "length (filter ?P (replicate 256 empty_udata)) = 0"
    by (simp add: empty_udata_def)
  with filter_update_count [of 255 "replicate 256 empty_udata" ?P ?a]
  have "length (filter ?P ((replicate 256 empty_udata)[255 := ?a])) = 1"
    by (simp add: empty_udata_def)
  with filter_update_count [of 0 "(replicate 256 empty_udata)[255 := ?a]" ?P ?b]
  show ?thesis
    by (simp add: empty_udata_def)
qed

lemma ex_skt_fields:
  "skt_skts ex_skt = Some SKTS4" "skt_queries_count ex_skt = 2" "skt_queries_index ex_skt = 255"
  "length (queries_tmr ex_skt) = 256"
  by (simp_all add: ex_skt_def)

lemma ex_skt_slot:
  "i < 256 \<Longrightarrow>
   ident (queries_tmr ex_skt ! i) = (if i = 0 then Some 1 else if i = 255 then Some 0 else None)"
  by (simp add: ex_skt_def nth_list_update empty_udata_def)

lemma ex_skt_occupied: "occupied ex_skt = 2"
proof -
  let ?P = "\<lambda>u. ident u \<noteq> None"
  let ?a = "\<lparr>ident = Some 0, ev_tmr = TMR_ENABLED 250\<rparr>"
  let ?b = "\<lparr>ident = Some 1, ev_tmr = TMR_ENABLED 250\<rparr>"
  have "length (filter ?P (replicate 256 empty_udata)) = 0"
    by (simp add: empty_udata_def)
  with filter_update_count [of 255 "replicate 256 empty_udata" ?P ?a]
  have "length (filter ?P ((replicate 256 empty_udata)[255 := ?a])) = 1"
    by (simp add: empty_udata_def)
  with filter_update_count [of 0 "(replicate 256 empty_udata)[255 := ?a]" ?P ?b]
  show ?thesis
    unfolding occupied_def ex_skt_def by (simp add: empty_udata_def)
qed

lemma ex_attached_fields:
  "sockets ex_attached = [Some ex_skt]"
  "queries ex_attached = [Some ((ex_q (ex_buf 0x40 1))\<lparr>q_skt := Some 0, query_id := 255\<rparr>),
                          Some ((ex_q (ex_buf 0x40 1))\<lparr>q_skt := Some 0, query_id := 0\<rparr>),
                          Some (ex_q (ex_buf 0x40 1))]"
  "get_skts ex_attached SKTS4 = \<lparr>skts_queries_count = 2, skt_count = 1, skts_skt = [Some 0, None]\<rparr>"
  "get_skts ex_attached SKTS6 = \<lparr>skts_queries_count = 0, skt_count = 0, skts_skt = [None, None]\<rparr>"
  "thr_sockets_max ex_attached = 2"
  by (simp_all add: ex_attached_def ex_cli_def get_skts_def)

lemma ex_attached_deref:
  "deref (sockets ex_attached) sp = (if sp = 0 then Inr ex_skt else Inl BadPointer)"
  "deref (queries ex_attached) 0 = Inr ((ex_q (ex_buf 0x40 1))\<lparr>q_skt := Some 0, query_id := 255\<rparr>)"
  "deref (queries ex_attached) (Suc 0) = Inr ((ex_q (ex_buf 0x40 1))\<lparr>q_skt := Some 0, query_id := 0\<rparr>)"
  "deref (queries ex_attached) 2 = Inr (ex_q (ex_buf 0x40 1))"
  by (simp_all add: ex_attached_fields deref_def)

lemma ex_attached_inv: "slot_inv ex_attached"
proof -
  have three: "qp = 0 \<or> qp = 1 \<or> qp = 2" if "qp < 3" for qp :: nat
    using that by arith
  have a: "query_linked ex_attached qp" if "qp < 3" for qp
    using three [OF that]
    by (auto simp: query_linked_def ex_attached_deref ex_skt_fields ex_skt_slot ex_q_def)
  have b: "skt_counted ex_attached 0"
    by (simp add: skt_counted_def ex_attached_deref ex_skt_fields ex_skt_occupied skts_list_def
        ex_attached_fields(3-5) RADIUS_PKT_HDR_ID_MAX_COUNT_def)
  have c: "slot_linked ex_attached 0 i" if "i < 256" for i
    using that by (simp add: slot_linked_def ex_attached_deref ex_skt_slot)
  have d: "skts_counted ex_attached SKTS4" "skts_counted ex_attached SKTS6"
    by (simp_all add: skts_counted_def skts_list_def skt_occupied_def ex_attached_deref
        ex_attached_fields(3-5) ex_skt_fields ex_skt_occupied)
  show ?thesis
    unfolding slot_inv_def list_all_iff
    using a b c d by (simp add: ex_attached_fields RADIUS_PKT_HDR_ID_MAX_COUNT_def)
qed

lemma ex_attached_found:
  "spec_auto_find (sockets ex_attached) (skts_list ex_attached SKTS4) = Some (0, 1)"
proof -
  have up: "[0..<255] = 0 # 1 # [2..<255]"
    by (simp add: upt_conv_Cons)
  have "List.find (\<lambda>i. ident (queries_tmr ex_skt ! i) = None) (spec_probe_order 255) = Some 1"
    unfolding spec_probe_order_def up by (simp add: ex_skt_slot upt_conv_Cons)
  then have "spec_auto_slot ex_skt = Some 1"
    by (simp add: spec_auto_slot_def ex_skt_fields)
  then show ?thesis
    by (simp add: skts_list_def ex_attached_fields(3) ex_attached_deref)
qed

theorem auto_id_slot_allocation_witness:
  "slot_inv ex_attached
   \<and> deref (queries ex_attached) 2 = Inr (ex_q (ex_buf 0x40 1))
   \<and> find_slot (sockets ex_attached) (ex_q (ex_buf 0x40 1)) (skts_list ex_attached SKTS4)
       = Inr (Some (0, 1))
   \<and> (\<exists>rc st' sk' q'. alloc_slot ex_env 2 (ex_srv 1) ex_attached = Inr (rc, st')
         \<and> deref (sockets st') 0 = Inr sk' \<and> skt_queries_index sk' = 2
         \<and> ident (queries_tmr sk' ! 1) = Some 2
         \<and> deref (queries st') 2 = Inr q' \<and> q_skt q' = Some 0 \<and> query_id q' = 1
         \<and> data (q_buf q') = [1, 1, 0, 20] @ replicate 36 0)"
proof -
  have fam: "skts_of_family (ss_family (addr (srv_s (ex_srv 1)))) = SKTS4"
    by (simp add: skts_of_family_def ex_srv_def ex_addr_def)
  have any: "query_id_any (ex_q (ex_buf 0x40 1))" "1 < length (data (q_buf (ex_q (ex_buf 0x40 1))))"
    by (simp_all add: ex_q_def ex_buf_def)
  have buf: "(data (q_buf (ex_q (ex_buf 0x40 1))))[1 := of_nat 1] = [1, 1, 0, 20] @ replicate 36 0"
    by (simp add: ex_q_def ex_buf_def)
  note t = auto_id_slot_allocation [OF ex_attached_inv ex_attached_deref(4) any,
      where e = ex_env and sv = "ex_srv 1", unfolded fam ex_attached_found]
  from t have fs: "find_slot (sockets ex_attached) (ex_q (ex_buf 0x40 1)) (skts_list ex_attached SKTS4)
       = Inr (Some (0, 1))"
    by (rule conjunct1)
  from t obtain rc st' sk' q' where r: "alloc_slot ex_env 2 (ex_srv 1) ex_attached = Inr (rc, st')"
      "deref (sockets st') 0 = Inr sk'" "skt_queries_index sk' = 1 + 1"
      "ident (queries_tmr sk' ! 1) = Some 2"
      "deref (queries st') 2 = Inr q'" "q_skt q' = Some 0" "query_id q' = 1"
      "data (q_buf q') = (data (q_buf (ex_q (ex_buf 0x40 1))))[1 := of_nat 1]"
    by blast
  have "skt_queries_index sk' = 2" using r(3) by simp
  with r buf show ?thesis
    using ex_attached_inv ex_attached_deref(4) fs by auto
qed

subsection \<open>Two queries with the same packet ID\<close>

lemmas ex_run_defs = radius_client_query_def radius_client_query_alloc_def RADIUS_PKT_TYPE_ACCESS_REQUEST_def
  RADIUS_CLIENT_QUERY_ID_AUTO_def SIZE_MAX_def sizeof_ptr_def
  radius_client_query_tpt_msg_cb_def radius_client_send_new_def radius_client_query_done_def
  radius_client_query_unlink_skt_def query_done_unlinked_def radius_client_query_done_tpt_msg_cb_def
  radius_client_query_free_def alloc_slot_def link_query_def sign_and_send_def radius_client_send_def
  radius_client_socket_alloc_def radius_client_socket_free_def skts_remove_def same_skts_def
  skt_find_slot_def set_tmr_def new_skt_def
  deref_def index_def store_def release_def tick_def get_skts_def set_skts_def skts_of_family_def
  empty_udata_def AF_INET_def RADIUS_PKT_HDR_ID_MAX_COUNT_def size_t_dec_def
  ex_env_def ex_cli_def ex_q_def ex_srv_def ex_addr_def zero_srv_def ex_buf_def

lemma ex_enqueue_first:
  "radius_client_query ex_env (Some 1) 5 (Some (ex_buf 0x40 1)) (Some 7) 0 (ex_cli [ex_srv 1])
   = (None, Some (ex_buf 0x40 1), Some 0,
      (ex_cli [ex_srv 1])\<lparr>queries := [Some ex_q5], now := 2, tpt_msgs := [(1, QUERY_MSG 0)]\<rparr>)"
  by (simp add: ex_run_defs ex_q5_def Let_def)

lemma ex_send_first:
  "radius_client_query_tpt_msg_cb ex_env 0
     ((ex_cli [ex_srv 1])\<lparr>queries := [Some ex_q5], now := 2, tpt_msgs := [(1, QUERY_MSG 0)]\<rparr>)
   = Inr ex_one"
  by (simp add: ex_run_defs ex_q5_def ex_one_def ex_q5_sent_def ex_skt5_def ex_rt_def
      next_enabled.simps probe.simps Let_def)

lemma ex_enqueue_second:
  "radius_client_query ex_env (Some 1) 5 (Some (ex_buf 0x40 1)) (Some 7) 0 ex_one
   = (None, Some (ex_buf 0x40 1), Some 1,
      ex_one\<lparr>queries := [Some (ex_q5_sent 0), Some ex_q5], now := 9,
             tpt_msgs := [(1, QUERY_MSG 0), (1, QUERY_MSG 1)]\<rparr>)"
  by (simp add: ex_run_defs ex_q5_def ex_one_def Let_def)

lemma ex_send_second:
  "radius_client_query_tpt_msg_cb ex_env 1
     (ex_one\<lparr>queries := [Some (ex_q5_sent 0), Some ex_q5], now := 9,
             tpt_msgs := [(1, QUERY_MSG 0), (1, QUERY_MSG 1)]\<rparr>)
   = Inr ex_two"
  by (simp add: ex_run_defs ex_q5_def ex_one_def ex_two_def ex_q5_sent_def ex_skt5_def ex_rt_def
      next_enabled.simps probe.simps Let_def)

lemma ex_two_reached: "ex_two_run = Inr ex_two"
  unfolding ex_two_run_def ex_enqueue_first prod.case ex_send_first bindF_simps
    ex_enqueue_second ex_send_second
  by (rule refl)

lemma ex_skt5_fields:
  "skt_skts (ex_skt5 qp) = Some SKTS4" "skt_queries_count (ex_skt5 qp) = 1"
  "skt_queries_index (ex_skt5 qp) = 0" "length (queries_tmr (ex_skt5 qp)) = 256"
  "skt_buf (ex_skt5 qp) = \<lparr>obj_byte0 = 0, data = replicate RADIUS_PKT_MAX_SIZE 0, used = 0\<rparr>"
  by (simp_all add: ex_skt5_def new_skt_def RADIUS_PKT_HDR_ID_MAX_COUNT_def)

lemma ex_skt5_slot:
  "i < 256 \<Longrightarrow> ident (queries_tmr (ex_skt5 qp) ! i) = (if i = 5 then Some qp else None)"
  by (simp add: ex_skt5_def nth_list_update empty_udata_def)

lemma ex_skt5_occupied: "occupied (ex_skt5 qp) = 1"
proof -
  let ?P = "\<lambda>u. ident u \<noteq> None"
  let ?a = "\<lparr>ident = Some qp, ev_tmr = TMR_ENABLED ex_rt\<rparr>"
  have "length (filter ?P (replicate 256 empty_udata)) = 0"
    by (simp add: empty_udata_def)
  with filter_update_count [of 5 "replicate 256 empty_udata" ?P ?a]
  show ?thesis
    unfolding occupied_def ex_skt5_def by (simp add: empty_udata_def)
qed

lemma ex_two_fields:
  "sockets ex_two = [Some (ex_skt5 0), Some (ex_skt5 1)]"
  "queries ex_two = [Some (ex_q5_sent 0), Some (ex_q5_sent 1)]"
  "get_skts ex_two SKTS4 = \<lparr>skts_queries_count = 2, skt_count = 2, skts_skt = [Some 0, Some 1]\<rparr>"
  "get_skts ex_two SKTS6 = \<lparr>skts_queries_count = 0, skt_count = 0, skts_skt = [None, None]\<rparr>"
  "thr_sockets_max ex_two = 2" "thr_sockets_min ex_two = 1" "thr_tpt ex_two = 1"
  by (simp_all add: ex_two_def ex_cli_def get_skts_def)

lemma ex_two_deref:
  "deref (sockets ex_two) sp = (if sp = 0 then Inr (ex_skt5 0) else if sp = 1 then Inr (ex_skt5 1) else Inl BadPointer)"
  "deref (queries ex_two) qp = (if qp = 0 then Inr (ex_q5_sent 0) else if qp = 1 then Inr (ex_q5_sent 1) else Inl BadPointer)"
  by (auto simp add: ex_two_fields deref_def nth_Cons split: nat.splits)

lemma ex_q5_sent_fields:
  "q_skt (ex_q5_sent sp) = Some sp" "query_id (ex_q5_sent sp) = 5" "cb_func (ex_q5_sent sp) = Some 7"
  "q_tpt (ex_q5_sent sp) = 1" "cur_srv_idx (ex_q5_sent sp) = 0"
  by (simp_all add: ex_q5_sent_def ex_q5_def ex_q_def)

lemma ex_two_inv: "slot_inv ex_two"
proof -
  have up: "[0..<2] = [0, 1]"
    by (simp add: upt_conv_Cons)
  have a: "query_linked ex_two qp" for qp
    by (simp add: query_linked_def ex_two_deref ex_skt5_fields ex_skt5_slot ex_q5_sent_fields)
  have b: "skt_counted ex_two sp" for sp
    by (simp add: skt_counted_def ex_two_deref ex_skt5_fields ex_skt5_occupied skts_list_def
        ex_two_fields(3-5) RADIUS_PKT_HDR_ID_MAX_COUNT_def)
  have c: "slot_linked ex_two sp i" if "i < 256" for i sp
    using that by (simp add: slot_linked_def ex_two_deref ex_skt5_slot ex_q5_sent_fields)
  have d: "skts_counted ex_two SKTS4" "skts_counted ex_two SKTS6"
    by (simp_all add: skts_counted_def skts_list_def skt_occupied_def ex_two_deref
        ex_two_fields(3-5) ex_skt5_fields ex_skt5_occupied)
  show ?thesis
    unfolding slot_inv_def list_all_iff
    using a b c d by (simp add: RADIUS_PKT_HDR_ID_MAX_COUNT_def)
qed

subsection \<open>Freeing a socket that is not the last of its pool\<close>

lemma socket_free_queries_append:
  "socket_free_queries e (us @ vs) st = bindF (socket_free_queries e us st) (socket_free_queries e vs)"
proof (induction us arbitrary: st)
  case Nil
  show ?case by simp
next
  case (Cons u us)
  show ?case
  proof (cases "ident u")
    case None
    then show ?thesis using Cons.IH by simp
  next
    case (Some qp)
    show ?thesis
    proof (cases "deref (queries st) qp")
      case (Inl f)
      then show ?thesis using Some by simp
    next
      case (Inr q)
      show ?thesis
      proof (cases "query_done_unlinked e qp None (Some EINTR)
                      (st\<lparr>queries := store (queries st) qp (q\<lparr>q_skt := None\<rparr>)\<rparr>)")
        case (Inl f)
        then show ?thesis using Some Inr by simp
      next
        case r: (Inr st1)
        then show ?thesis using Some Inr Cons.IH by simp
      qed
    qed
  qed
qed

lemma socket_free_queries_empty_slots:
  "socket_free_queries e (replicate n empty_udata) st = Inr st"
  by (induction n) (simp_all add: empty_udata_def)

lemma ex_skt5_table:
  "queries_tmr (ex_skt5 qp)
   = replicate 5 empty_udata @ \<lparr>ident = Some qp, ev_tmr = TMR_ENABLED ex_rt\<rparr> # replicate 250 empty_udata"
proof -
  have "replicate 256 empty_udata = replicate 5 empty_udata @ empty_udata # replicate 250 empty_udata"
    by (simp add: replicate_add [symmetric] flip: replicate_Suc)
  then show ?thesis
    by (simp add: ex_skt5_def list_update_append)
qed

lemma ex_two_socket_free:
  "radius_client_socket_free ex_env 0 ex_two = Inr ex_two_freed"
proof -
  have up: "[0..<2] = [0, 1]"
    by (simp add: upt_conv_Cons)
  have cur: "thread_get_current ex_env = 1"
    by (simp add: ex_env_def)
  have rm: "skts_remove 0 (ex_skt5 0) ex_two
      = Inr (ex_two\<lparr>skts4 := \<lparr>skts_queries_count = 1, skt_count = 1, skts_skt = [None, Some 1]\<rparr>,
                    sockets := [Some ((ex_skt5 0)\<lparr>skt_skts := None\<rparr>), Some (ex_skt5 1)]\<rparr>)"
    by (simp add: skts_remove_def ex_skt5_fields ex_two_fields up set_skts_def store_def
        size_t_dec_def size_t_sub_def Let_def)
  have qs: "socket_free_queries ex_env (queries_tmr (ex_skt5 0))
       (ex_two\<lparr>skts4 := \<lparr>skts_queries_count = 1, skt_count = 1, skts_skt = [None, Some 1]\<rparr>,
                    sockets := [Some ((ex_skt5 0)\<lparr>skt_skts := None\<rparr>), Some (ex_skt5 1)]\<rparr>)
      = Inr (ex_two\<lparr>skts4 := \<lparr>skts_queries_count = 1, skt_count = 1, skts_skt = [None, Some 1]\<rparr>,
                    sockets := [Some ((ex_skt5 0)\<lparr>skt_skts := None\<rparr>), Some (ex_skt5 1)],
                    queries := [None, Some (ex_q5_sent 1)],
                    cb_log := [(0, Some EINTR)]\<rparr>)"
    unfolding ex_skt5_table socket_free_queries_append socket_free_queries_empty_slots bindF_simps
    by (simp add: socket_free_queries_empty_slots query_done_unlinked_def
        radius_client_query_done_tpt_msg_cb_def radius_client_query_free_def cur
        ex_two_fields ex_q5_sent_fields deref_def store_def release_def ex_two_def ex_cli_def)
  have d: "deref (sockets ex_two) 0 = Inr (ex_skt5 0)"
    by (simp add: ex_two_deref)
  show ?thesis
    unfolding radius_client_socket_free_def d bindF_simps rm qs
    by (simp add: cur ex_two_fields(7) ex_two_freed_def release_def)
qed

lemma ex_two_freed_fields:
  "sockets ex_two_freed = [None, Some (ex_skt5 1)]"
  "get_skts ex_two_freed SKTS4 = \<lparr>skts_queries_count = 1, skt_count = 1, skts_skt = [None, Some 1]\<rparr>"
  by (simp_all add: ex_two_freed_def get_skts_def)

text \<open>
  C2 (the code departs from the claim). \<^verbatim>\<open>radius_client_socket_free\<close> detaches every
  query of the socket it frees (line 606), and its removal loop (lines 590-600) clears the
  socket's entry of the pool's array and decrements \<^verbatim>\<open>skt_count\<close> without moving the
  entries behind it. The state \<open>ex_two\<close> is reached by enqueuing and sending two queries
  with packet ID 5, and the slot invariant holds in it. Freeing socket 0, which is the first
  call of the loop of \<^verbatim>\<open>radius_client_destroy_tpt_msg_cb\<close> (line 443), returns a state
  in which the counted part of the pool's array is the one entry \<^verbatim>\<open>NULL\<close>, while socket 1
  still holds query 1 in slot 5 and is no longer listed by its pool: the pool and the socket
  are not counted as the invariant asks, and the slot invariant does not hold.
\<close>

theorem socket_free_breaks_slot_invariant:
  "ex_two_run = Inr ex_two
   \<and> slot_inv ex_two
   \<and> radius_client_socket_free ex_env 0 ex_two = Inr ex_two_freed
   \<and> skts_list ex_two_freed SKTS4 = [None]
   \<and> deref (sockets ex_two_freed) 1 = Inr (ex_skt5 1)
   \<and> ident (queries_tmr (ex_skt5 1) ! 5) = Some 1
   \<and> \<not> skt_counted ex_two_freed 1
   \<and> \<not> skts_counted ex_two_freed SKTS4
   \<and> \<not> slot_inv ex_two_freed"
proof -
  have l: "skts_list ex_two_freed SKTS4 = [None]"
    by (simp add: skts_list_def ex_two_freed_fields)
  have d: "deref (sockets ex_two_freed) 1 = Inr (ex_skt5 1)"
    by (simp add: ex_two_freed_fields deref_def)
  have s: "ident (queries_tmr (ex_skt5 1) ! 5) = Some 1"
    by (simp add: ex_skt5_slot)
  have c: "\<not> skt_counted ex_two_freed 1"
    unfolding skt_counted_def d by (simp add: ex_skt5_fields l)
  have p: "\<not> skts_counted ex_two_freed SKTS4"
    unfolding skts_counted_def l by simp
  have "\<not> slot_inv ex_two_freed"
    using p by (simp add: slot_inv_def)
  with ex_two_reached ex_two_inv ex_two_socket_free l d s c p show ?thesis
    by (intro conjI)
qed

subsection \<open>The receiver\<close>

text \<open>
  When the checks of the specification do not all pass for the datagram in the socket's
  buffer, a run of the handler that returns has only marked that buffer as empty: slots,
  timers, counters and queries are as before.
\<close>

lemma recv_cb_dropped:
  assumes "deref (sockets st) sp = Inr sk"
    and "\<not> spec_recv_accepts e st sk from_addr"
    and "radius_client_recv_cb e sp error from_addr st = Inr st'"
  shows "st' = st\<lparr>sockets := store (sockets st) sp (sk\<lparr>skt_buf := io_buf_mark_empty (skt_buf sk)\<rparr>)\<rparr>"
  using assms
  unfolding radius_client_recv_cb_def spec_recv_accepts_def rcv_next_def
  by (auto simp: bindF_Inr_iff index_def split: if_splits option.splits sum.splits)

lemma ex_two_fill: "tp_task_pkt_rcvr_fill 1 ex_reply ex_two = Inr ex_two_rcvd"
  by (simp add: tp_task_pkt_rcvr_fill_def deref_def ex_two_fields store_def ex_skt5_fields
      ex_two_rcvd_def ex_skt5_rcvd_def ex_reply_def RADIUS_PKT_MAX_SIZE_def)

lemma ex_two_rcvd_inv: "slot_inv ex_two_rcvd"
  using slot_inv_skt_buf [OF ex_two_inv, of 1 "ex_skt5 1"
      "\<lparr>obj_byte0 = 0, data = ex_reply @ replicate (RADIUS_PKT_MAX_SIZE - 20) 0, used = 20\<rparr>"]
  by (simp add: deref_def ex_two_rcvd_def ex_skt5_rcvd_def ex_two_fields store_def)

lemma ex_skt5_rcvd_fields:
  "skt_skts ex_skt5_rcvd = Some SKTS4" "skt_queries_count ex_skt5_rcvd = 1"
  "queries_tmr ex_skt5_rcvd = queries_tmr (ex_skt5 1)"
  "data (skt_buf ex_skt5_rcvd) ! 1 = 5" "used (skt_buf ex_skt5_rcvd) = 20"
  "1 < length (data (skt_buf ex_skt5_rcvd))"
  by (simp_all add: ex_skt5_rcvd_def ex_skt5_fields ex_reply_def RADIUS_PKT_MAX_SIZE_def)

lemma ex_two_rcvd_fields:
  "sockets ex_two_rcvd = [Some (ex_skt5 0), Some ex_skt5_rcvd]"
  "queries ex_two_rcvd = [Some (ex_q5_sent 0), Some (ex_q5_sent 1)]"
  "get_skts ex_two_rcvd SKTS4 = \<lparr>skts_queries_count = 2, skt_count = 2, skts_skt = [Some 0, Some 1]\<rparr>"
  "thr_sockets_min ex_two_rcvd = 1" "thr_tpt ex_two_rcvd = 1"
  "srv ex_two_rcvd ! 0 = ex_srv 1"
  by (simp_all add: ex_two_rcvd_def ex_two_def ex_cli_def get_skts_def)

lemma ex_two_rcvd_deref:
  "deref (sockets ex_two_rcvd) 1 = Inr ex_skt5_rcvd"
  "deref (queries ex_two_rcvd) 1 = Inr (ex_q5_sent 1)"
  by (simp_all add: ex_two_rcvd_fields deref_def)

lemma ex_two_rcvd_accepts: "spec_recv_accepts ex_env ex_two_rcvd ex_skt5_rcvd (ex_addr 1)"
  unfolding spec_recv_accepts_def ex_skt5_rcvd_fields
  by (simp add: ex_skt5_slot deref_def ex_q5_sent_fields ex_two_rcvd_fields
      ex_env_def ex_srv_def sa_addr_port_is_eq_def)

lemma ex_two_unlink:
  "radius_client_query_unlink_skt ex_env 1 ex_two_rcvd
   = Inr (ex_two\<lparr>
       skts4 := \<lparr>skts_queries_count = 1, skt_count = 1, skts_skt = [Some 0, None]\<rparr>,
       sockets := [Some (ex_skt5 0), None],
       queries := [Some (ex_q5_sent 0), Some ((ex_q5_sent 1)\<lparr>q_skt := None\<rparr>)]\<rparr>)"
proof -
  have up: "[0..<2] = [0, 1]"
    by (simp add: upt_conv_Cons)
  have cur: "thread_get_current ex_env = 1"
    by (simp add: ex_env_def)
  let ?sk1 = "ex_skt5_rcvd\<lparr>queries_tmr := (queries_tmr ex_skt5_rcvd)[5 := empty_udata],
                skt_queries_count := 0\<rparr>"
  let ?st1 = "ex_two\<lparr>
       skts4 := \<lparr>skts_queries_count = 1, skt_count = 2, skts_skt = [Some 0, Some 1]\<rparr>,
       sockets := [Some (ex_skt5 0), Some ?sk1],
       queries := [Some (ex_q5_sent 0), Some ((ex_q5_sent 1)\<lparr>q_skt := None\<rparr>)]\<rparr>"
  have tab: "queries_tmr ?sk1 = replicate 256 empty_udata"
    by (simp add: ex_skt5_rcvd_fields ex_skt5_table list_update_append
        replicate_add [symmetric] flip: replicate_Suc)
  have f1: "get_skts ?st1 SKTS4 = \<lparr>skts_queries_count = 1, skt_count = 2, skts_skt = [Some 0, Some 1]\<rparr>"
    "thr_tpt ?st1 = 1"
    by (simp_all add: get_skts_def ex_two_fields)
  have rm: "skts_remove 1 ?sk1 ?st1
      = Inr (ex_two\<lparr>
          skts4 := \<lparr>skts_queries_count = 1, skt_count = 1, skts_skt = [Some 0, None]\<rparr>,
          sockets := [Some (ex_skt5 0), Some (?sk1\<lparr>skt_skts := None\<rparr>)],
          queries := [Some (ex_q5_sent 0), Some ((ex_q5_sent 1)\<lparr>q_skt := None\<rparr>)]\<rparr>)"
    unfolding skts_remove_def
    by (simp add: ex_skt5_rcvd_fields get_skts_def up set_skts_def store_def
        size_t_dec_def size_t_sub_def Let_def)
  have fr: "radius_client_socket_free ex_env 1 ?st1
      = Inr (ex_two\<lparr>
          skts4 := \<lparr>skts_queries_count = 1, skt_count = 1, skts_skt = [Some 0, None]\<rparr>,
          sockets := [Some (ex_skt5 0), None],
          queries := [Some (ex_q5_sent 0), Some ((ex_q5_sent 1)\<lparr>q_skt := None\<rparr>)]\<rparr>)"
  proof -
    have d: "deref (sockets ?st1) 1 = Inr ?sk1"
      by (simp add: deref_def)
    show ?thesis
      unfolding radius_client_socket_free_def d bindF_simps rm tab socket_free_queries_empty_slots
      by (simp add: cur ex_two_fields(7) release_def)
  qed
  show ?thesis
    using fr unfolding radius_client_query_unlink_skt_def
    by (simp add: deref_def index_def ex_q5_sent_fields ex_skt5_rcvd_fields ex_skt5_fields
        ex_two_rcvd_def ex_two_def ex_cli_def get_skts_def size_t_dec_def Let_def set_skts_def
        store_def)
qed

lemma ex_two_query_done:
  "radius_client_query_done ex_env 1 (Some 1) None ex_two_rcvd = Inr ex_two_done"
  unfolding radius_client_query_done_def ex_two_unlink bindF_simps
  by (simp add: query_done_unlinked_def radius_client_query_done_tpt_msg_cb_def
      radius_client_query_free_def deref_def store_def release_def ex_q5_sent_fields
      ex_two_done_def ex_two_def ex_cli_def ex_env_def)

lemma ex_two_done_deref: "deref (sockets ex_two_done) 1 = Inl BadPointer"
  by (simp add: ex_two_done_def deref_def)

lemma ex_two_done_rcv_next: "rcv_next 1 ex_two_done = Inl BadPointer"
  unfolding rcv_next_def ex_two_done_deref by simp

lemma ex_two_recv_cb:
  "radius_client_recv_cb ex_env 1 None (ex_addr 1) ex_two_rcvd = Inl BadPointer"
proof -
  have cur: "thread_get_current ex_env = 1" "pkt_chk ex_env d n = None" "pkt_verify ex_env p s r = 0"
    for d n p s r
    by (simp_all add: ex_env_def)
  have i1: "index (data (skt_buf ex_skt5_rcvd)) 1 = Inr 5"
    using ex_skt5_rcvd_fields(4,6) by (simp add: index_def)
  have i2: "index (queries_tmr ex_skt5_rcvd) (unat (5 :: 8 word))
      = Inr \<lparr>ident = Some 1, ev_tmr = TMR_ENABLED ex_rt\<rparr>"
    by (simp add: index_def ex_skt5_rcvd_fields ex_skt5_fields ex_skt5_def)
  have i3: "index (srv ex_two_rcvd) (cur_srv_idx (ex_q5_sent 1)) = Inr (ex_srv 1)"
    by (simp add: index_def ex_q5_sent_fields ex_two_rcvd_def ex_two_def ex_cli_def)
  have eq: "sa_addr_port_is_eq (ex_addr 1) (addr (srv_s (ex_srv 1))) \<noteq> 0"
    by (simp add: sa_addr_port_is_eq_def ex_srv_def)
  show ?thesis
    unfolding radius_client_recv_cb_def ex_two_rcvd_deref bindF_simps cur ex_two_rcvd_fields(5)
      i1 i2 tp_udata.simps option.case i3
    using eq ex_two_query_done ex_two_done_rcv_next by simp
qed

text \<open>
  C9 (the code departs from the claim). In \<open>ex_two\<close> the reply \<open>ex_reply\<close> arrives in
  the buffer of socket 1 from the server's address, and the four checks of the claim pass
  for it. The completion of query 1 empties socket 1, the last socket of a pool above
  \<^verbatim>\<open>thr_sockets_min\<close>, so \<^verbatim>\<open>radius_client_query_unlink_skt\<close> frees the socket
  (lines 670-673) before the callback is called with error 0. The handler then arrives at
  \<^verbatim>\<open>rcv_next\<close> (lines 1032-1033) and marks the buffer of the freed socket as empty: the
  handler ends in a fault and not in a state.
\<close>

theorem recv_cb_accepted_reply_touches_freed_socket:
  "ex_two_run = Inr ex_two
   \<and> tp_task_pkt_rcvr_fill 1 ex_reply ex_two = Inr ex_two_rcvd
   \<and> slot_inv ex_two_rcvd
   \<and> deref (sockets ex_two_rcvd) 1 = Inr ex_skt5_rcvd
   \<and> spec_recv_accepts ex_env ex_two_rcvd ex_skt5_rcvd (ex_addr 1)
   \<and> radius_client_query_done ex_env 1 (Some 1) None ex_two_rcvd = Inr ex_two_done
   \<and> deref (sockets ex_two_done) 1 = Inl BadPointer
   \<and> cb_log ex_two_done = [(1, None)]
   \<and> rcv_next 1 ex_two_done = Inl BadPointer
   \<and> radius_client_recv_cb ex_env 1 None (ex_addr 1) ex_two_rcvd = Inl BadPointer"
proof -
  have "cb_log ex_two_done = [(1, None)]"
    by (simp add: ex_two_done_def)
  with ex_two_reached ex_two_fill ex_two_rcvd_inv ex_two_rcvd_deref(1) ex_two_rcvd_accepts
    ex_two_query_done ex_two_done_deref ex_two_done_rcv_next ex_two_recv_cb
  show ?thesis
    by (intro conjI)
qed

end
